theory Spec2Isabelle
  imports Complex_Main "HOL-Library.Sublist" "HOL-Library.Log_Nat"
begin

section \<open>JavaScript strings\<close>

text \<open>
  A string is a list of code units; the model covers the code units 0..255 (Latin-1).
  \<open>toLowerCase\<close> maps A-Z and the accented capitals of that range (all of 192..222
  but the multiplication sign 215) to the letter 32 places further on, and leaves every
  other code unit alone.
\<close>

definition lowerChar :: "char \<Rightarrow> char" where
  "lowerChar c =
     (let n = (of_char c :: nat)
      in if (65 \<le> n \<and> n \<le> 90) \<or> (192 \<le> n \<and> n \<le> 222 \<and> n \<noteq> 215)
         then char_of (n + 32) else c)"

definition toLowerCase :: "string \<Rightarrow> string" where
  "toLowerCase s = map lowerChar s"

text \<open>\<open>s.startsWith(k)\<close> and \<open>s.includes(k)\<close>, by a scan from the left.\<close>

fun startsWith :: "string \<Rightarrow> string \<Rightarrow> bool" where
  "startsWith s [] = True"
| "startsWith [] (k # ks) = False"
| "startsWith (c # cs) (k # ks) = (c = k \<and> startsWith cs ks)"

fun includes_str :: "string \<Rightarrow> string \<Rightarrow> bool" where
  "includes_str [] k = (k = [])"
| "includes_str (c # cs) k = (startsWith (c # cs) k \<or> includes_str cs k)"

section \<open>Field normalizers\<close>

subsection \<open>Shape and type detectors\<close>

text \<open>A regular expression that is an alternation of literal words: \<open>/a|b|c/.test(text)\<close>.\<close>

definition testAny :: "string list \<Rightarrow> string \<Rightarrow> bool" where
  "testAny ws text = list_ex (includes_str text) ws"

definition detectShape :: "string \<Rightarrow> string \<Rightarrow> string" where
  "detectShape name desc =
     (let text = toLowerCase (name @ '' '' @ desc)
      in if testAny [''round'', ''circle'', ''circular''] text then ''round''
         else if testAny [''aviator'', ''pilot'', ''teardrop''] text then ''aviator''
         else if testAny [''square'', ''rectangular'', ''angular''] text then ''square''
         else ''rect'')"

definition typeWords :: "string list" where
  "typeWords = [''sun'', ''tinted'', ''polarized'', ''uv'']"

definition detectType :: "string \<Rightarrow> string \<Rightarrow> string \<Rightarrow> string" where
  "detectType name desc category =
     (let text = toLowerCase (name @ '' '' @ desc @ '' '' @ category)
      in if testAny typeWords text then ''Sunglasses'' else ''Optical'')"

subsection \<open>Color normalizer\<close>

text \<open>
  \<open>COLOR_MAP\<close> is an object literal whose keys are not integer-like, so
  \<open>Object.entries\<close> lists its entries in the order they are written.
\<close>

definition COLOR_MAP :: "(string \<times> string) list" where
  "COLOR_MAP =
     [(''black'', ''Black''), (''dark'', ''Black''),
      (''gold'', ''Gold''), (''yellow'', ''Gold''),
      (''silver'', ''Silver''), (''chrome'', ''Silver''), (''gunmetal'', ''Silver''),
      (''grey'', ''Silver''), (''gray'', ''Silver''),
      (''tortoise'', ''Tortoise''), (''havana'', ''Tortoise''), (''brown'', ''Tortoise''),
      (''blue'', ''Blue''), (''navy'', ''Blue'')]"

text \<open>The \<open>for ... of\<close> loop over the entries, with its early return.\<close>

fun colorLoop :: "string \<Rightarrow> (string \<times> string) list \<Rightarrow> string" where
  "colorLoop lower [] = ''Black''"
| "colorLoop lower ((key, val) # rest) =
     (if includes_str lower key then val else colorLoop lower rest)"

definition normalizeColor :: "string \<Rightarrow> string" where
  "normalizeColor raw = (let lower = toLowerCase raw in colorLoop lower COLOR_MAP)"

subsection \<open>Numbers\<close>

text \<open>
  A JavaScript number is \<open>NaN\<close>, one of the two infinities, or a finite double, given
  by its exact value; the two zeros are one value, as they are for \<open>===\<close>.
\<close>

datatype jsnum = NaN | PosInf | NegInf | Finite rat

text \<open>The binary exponent of a positive rational: \<open>2^e \<le> q < 2^(e+1)\<close>.\<close>

definition exponentOf :: "rat \<Rightarrow> int" where
  "exponentOf q =
     (let (a, b) = quotient_of q;
          e = bitlen a - bitlen b
      in if 2 powi e \<le> q then e else e - 1)"

text \<open>The nearest integer, a tie going to the even one.\<close>

definition nearestEven :: "rat \<Rightarrow> int" where
  "nearestEven x =
     (let f = \<lfloor>x\<rfloor>; r = x - of_int f
      in if r < 1 / 2 then f
         else if 1 / 2 < r then f + 1
         else if even f then f else f + 1)"

text \<open>
  The double nearest to a non-negative rational, as the engine of Node computes it for a
  decimal literal: 53 significant bits, exponents from -1022 (below that the spacing
  stays \<open>2^-1074\<close>) to 1023, ties to even, and \<open>Infinity\<close> when the rounded value
  reaches \<open>2^1024\<close>.
\<close>

definition toDouble :: "rat \<Rightarrow> jsnum" where
  "toDouble q =
     (if q = 0 then Finite 0
      else let e = max (exponentOf q) (- 1022);
               ulp = 2 powi (e - 52);
               d = of_int (nearestEven (q / ulp)) * ulp
           in if 1024 \<le> exponentOf d then PosInf else Finite d)"

subsection \<open>Price parser\<close>

definition isDigit :: "char \<Rightarrow> bool" where
  "isDigit c = (let n = (of_char c :: nat) in 48 \<le> n \<and> n \<le> 57)"

definition digitVal :: "char \<Rightarrow> int" where
  "digitVal c = of_char c - 48"

definition digitsVal :: "string \<Rightarrow> int" where
  "digitsVal ds = foldl (\<lambda>acc d. 10 * acc + digitVal d) 0 ds"

text \<open>\<open>raw.replace(/,/g, '')\<close>.\<close>

definition stripCommas :: "string \<Rightarrow> string" where
  "stripCommas raw = filter (\<lambda>c. c \<noteq> CHR '','') raw"

text \<open>
  \<open>.match(/[\d.]+/)\<close>: the leftmost character of the class starts the match, which
  then runs as far as the class goes; \<open>None\<close> is the \<open>null\<close> of no match.
\<close>

definition numChar :: "char \<Rightarrow> bool" where
  "numChar c = (isDigit c \<or> c = CHR ''.'')"

definition matchNumeric :: "string \<Rightarrow> string option" where
  "matchNumeric s =
     (let m = takeWhile numChar (dropWhile (\<lambda>c. \<not> numChar c) s)
      in if m = [] then None else Some m)"

text \<open>
  \<open>parseFloat\<close> on a string of digits and dots, the only strings \<open>parsePrice\<close>
  hands it: it reads the longest prefix that is a decimal literal (digits, then
  optionally a dot and digits, or a dot and at least one digit), gives \<open>NaN\<close> when
  there is none, and the double nearest to the decimal otherwise.
\<close>

definition parseFloat :: "string \<Rightarrow> jsnum" where
  "parseFloat s =
     (let ip = takeWhile isDigit s;
          rest = dropWhile isDigit s;
          fp = (case rest of [] \<Rightarrow> [] | c # cs \<Rightarrow> if c = CHR ''.'' then takeWhile isDigit cs else [])
      in if ip = [] \<and> fp = [] then NaN
         else toDouble (of_int (digitsVal ip) + of_int (digitsVal fp) / 10 ^ length fp))"

text \<open>
  \<open>Math.round\<close>: the nearest integer, a half going up; \<open>NaN\<close> and the infinities
  stay. For a double the result is a double again.
\<close>

fun Math_round :: "jsnum \<Rightarrow> jsnum" where
  "Math_round (Finite q) = Finite (of_int \<lfloor>q + 1 / 2\<rfloor>)"
| "Math_round x = x"

definition parsePrice :: "string \<Rightarrow> jsnum" where
  "parsePrice raw =
     (case matchNumeric (stripCommas raw) of
        None \<Rightarrow> Finite 0
      | Some m \<Rightarrow> Math_round (parseFloat m))"

subsection \<open>Swatch colors\<close>

definition COLOR_HEX_MAP :: "(string \<times> string) list" where
  "COLOR_HEX_MAP =
     [(''Black'', ''#2C2C2C''), (''Gold'', ''#D4AF37''), (''Silver'', ''#C0C0C0''),
      (''Tortoise'', ''#5C4033''), (''Blue'', ''#1E3A8A'')]"

section \<open>Values and the persisted store\<close>

text \<open>
  The values \<open>JSON.parse\<close> can return, which are also the values the scraper builds: an
  object is the list of its own properties in order, with distinct keys.
\<close>

datatype jsval =
    JNull
  | JBool bool
  | JNum jsnum
  | JStr string
  | JArr "jsval list"
  | JObj "(string \<times> jsval) list"

text \<open>
  Reading a property that is not built in (\<open>p.manual\<close>, \<open>p.id\<close>): \<open>None\<close> is
  \<open>undefined\<close>. On \<open>null\<close> the read throws a TypeError, which the callers below
  handle before they ask.
\<close>

fun getProp :: "jsval \<Rightarrow> string \<Rightarrow> jsval option" where
  "getProp (JObj kvs) k = map_of kvs k"
| "getProp v k = None"

text \<open>
  The text of a file is taken by what \<open>JSON.parse\<close> makes of it: it is not JSON, or it
  is JSON for a value. \<open>JSON.stringify\<close> writes \<open>null\<close> for a number that is not
  finite, at any depth, and every other value as it is: \<open>stored v\<close> is the value its
  output parses back to.
\<close>

datatype json_text = NotJson | Json jsval

primrec stored :: "jsval \<Rightarrow> jsval" where
  "stored JNull = JNull"
| "stored (JBool b) = JBool b"
| "stored (JNum x) = (case x of Finite q \<Rightarrow> JNum (Finite q) | _ \<Rightarrow> JNull)"
| "stored (JStr s) = JStr s"
| "stored (JArr vs) = JArr (map stored vs)"
| "stored (JObj kvs) = JObj (map (map_prod id stored) kvs)"

definition JSON_stringify :: "jsval \<Rightarrow> json_text" where
  "JSON_stringify v = Json (stored v)"

text \<open>What a call can throw and a \<open>catch\<close> can take.\<close>

datatype exn = IOError | SyntaxError | TypeError

fun JSON_parse :: "json_text \<Rightarrow> exn + jsval" where
  "JSON_parse NotJson = Inl SyntaxError"
| "JSON_parse (Json v) = Inr v"

text \<open>
  The file \<open>products.json\<close>: absent, present but not readable, or present with its
  text.
\<close>

datatype cache_file = NoFile | Unreadable | Content json_text

fun existsSync :: "cache_file \<Rightarrow> bool" where
  "existsSync NoFile = False"
| "existsSync f = True"

fun readFileSync :: "cache_file \<Rightarrow> exn + json_text" where
  "readFileSync (Content t) = Inr t"
| "readFileSync f = Inl IOError"

text \<open>\<open>JSON.parse(fs.readFileSync(CACHE_FILE, 'utf8'))\<close>.\<close>

definition readStore :: "cache_file \<Rightarrow> exn + jsval" where
  "readStore f = (case readFileSync f of Inl e \<Rightarrow> Inl e | Inr t \<Rightarrow> JSON_parse t)"

text \<open>The callback \<open>p => p.manual === true\<close>, which throws on \<open>null\<close>.\<close>

fun manualFlag :: "jsval \<Rightarrow> exn + bool" where
  "manualFlag JNull = Inl TypeError"
| "manualFlag p = Inr (getProp p ''manual'' = Some (JBool True))"

text \<open>
  \<open>raw.filter(p => p.manual === true)\<close>: the callback runs on the elements in order, and
  an exception of it ends the whole call.
\<close>

fun filterList :: "jsval list \<Rightarrow> exn + jsval list" where
  "filterList [] = Inr []"
| "filterList (p # ps) =
     (case manualFlag p of
        Inl e \<Rightarrow> Inl e
      | Inr keep \<Rightarrow>
          (case filterList ps of
             Inl e \<Rightarrow> Inl e
           | Inr kept \<Rightarrow> Inr (if keep then p # kept else kept)))"

text \<open>A value that is not an array has no \<open>filter\<close> method: calling it throws.\<close>

fun filterManual :: "jsval \<Rightarrow> exn + jsval list" where
  "filterManual (JArr ps) = filterList ps"
| "filterManual v = Inl TypeError"

text \<open>
  The first block of \<open>runScraper\<close>: \<open>existing\<close> stays empty when the file is absent
  and when the read, the parse or the filter inside the \<open>try\<close> throws.
\<close>

definition loadExisting :: "cache_file \<Rightarrow> jsval list" where
  "loadExisting f =
     (if existsSync f
      then (case (case readStore f of Inl e \<Rightarrow> Inl e | Inr raw \<Rightarrow> filterManual raw) of
              Inl e \<Rightarrow> []
            | Inr kept \<Rightarrow> kept)
      else [])"

text \<open>
  \<open>loadCachedProducts\<close>, with its result or the exception that leaves it: the early
  return for a missing file, then the \<open>try\<close> around the read and the parse and its
  \<open>catch\<close>.
\<close>

definition loadCachedProducts :: "cache_file \<Rightarrow> exn + jsval" where
  "loadCachedProducts f =
     (if \<not> existsSync f then Inr (JArr [])
      else (case readStore f of
              Inl e \<Rightarrow> Inr (JArr [])
            | Inr v \<Rightarrow> Inr v))"

section \<open>Scraper configurations\<close>

text \<open>
  The selectors of a configuration are only handed to the browser, which is modelled by
  what it returns; they are left out.
\<close>

record overrides =
  material :: "string option"
  weight :: "rat option"

record config =
  brand :: string
  enabled :: bool
  urls :: "string list"
  overrides :: "overrides option"

definition SCRAPER_CONFIGS :: "config list" where
  "SCRAPER_CONFIGS =
     [\<lparr>brand = ''ic! berlin'', enabled = True,
       urls = [''https://www.ic-berlin.de/en/eyewear/spectacle-frames/'',
               ''https://www.ic-berlin.de/en/eyewear/sunglasses/''],
       overrides = Some \<lparr>material = Some ''Stainless Steel'', weight = Some 14\<rparr>\<rparr>,
      \<lparr>brand = ''Orgreen'', enabled = True,
       urls = [''https://www.orgreen.com/collections/optical-frames'',
               ''https://www.orgreen.com/collections/sunglasses''],
       overrides = Some \<lparr>material = Some ''Titanium'', weight = Some 15\<rparr>\<rparr>,
      \<lparr>brand = ''Tom Ford'', enabled = True,
       urls = [''https://www.tomford.com/eyewear/optical-frames/'',
               ''https://www.tomford.com/eyewear/sunglasses/''],
       overrides = Some \<lparr>material = Some ''Acetate'', weight = Some 28\<rparr>\<rparr>,
      \<lparr>brand = ''Talla'', enabled = True,
       urls = [''https://www.tallaeyewear.com/collections/optical'',
               ''https://www.tallaeyewear.com/collections/sun''],
       overrides = Some \<lparr>material = Some ''Titanium'', weight = Some 18\<rparr>\<rparr>]"

section \<open>The browser and the clock\<close>

text \<open>
  The browser is modelled by what it answers for each listing URL: whether
  \<open>browser.newPage()\<close> and \<open>page.close()\<close> succeed, and what happens inside the
  \<open>try\<close> block: \<open>page.goto\<close> throws (a timeout included), one of the waits or the
  scroll throws, the extracting \<open>page.evaluate\<close> throws, or the extraction returns the
  raw items of the page. \<open>clock\<close> is the ISO time read while the product with a given
  id is built.
\<close>

record raw_item =
  rawName :: string
  rawPrice :: string
  rawColor :: string
  imageUrl :: string
  productUrl :: string

datatype page_outcome =
    GotoThrows
  | RenderThrows
  | ExtractThrows
  | Items "raw_item list"

record world =
  launchOk :: bool
  newPageOk :: "string \<Rightarrow> bool"
  pageOutcome :: "string \<Rightarrow> page_outcome"
  pageCloseOk :: "string \<Rightarrow> bool"
  browserCloseOk :: bool
  clock :: "int \<Rightarrow> string"
  writeOk :: bool

text \<open>What rejects the promise of \<open>runScraper\<close>: an exception outside every \<open>try\<close>.\<close>

datatype error =
    LaunchError
  | NewPageError string
  | PageCloseError string
  | BrowserCloseError
  | WriteError

text \<open>The page resources taken and released, in order.\<close>

datatype event = NewPage string | ClosePage string

section \<open>Core scrape function\<close>

text \<open>\<open>x || 0\<close> on a number: \<open>NaN\<close> and \<open>0\<close> are falsy.\<close>

fun orZero :: "jsnum \<Rightarrow> jsnum" where
  "orZero NaN = Finite 0"
| "orZero (Finite q) = (if q = 0 then Finite 0 else Finite q)"
| "orZero x = x"

text \<open>The body of the loop over the items, for an item with a name.\<close>

definition mkProduct :: "world \<Rightarrow> config \<Rightarrow> string \<Rightarrow> int \<Rightarrow> raw_item \<Rightarrow> jsval" where
  "mkProduct w config url idCounter item =
     (let color = (if rawColor item \<noteq> [] then normalizeColor (rawColor item) else ''Black'');
          type = detectType (rawName item) [] url;
          shape = detectShape (rawName item) [];
          price = parsePrice (rawPrice item);
          imageColor = (case map_of COLOR_HEX_MAP color of
                          Some hex \<Rightarrow> if hex \<noteq> [] then hex else ''#2C2C2C''
                        | None \<Rightarrow> ''#2C2C2C'');
          imageUrl0 = imageUrl item;
          imageUrl1 = (if imageUrl0 \<noteq> [] \<and> startsWith imageUrl0 ''//''
                       then ''https:'' @ imageUrl0 else imageUrl0)
      in JObj
           [(''id'', JNum (Finite (of_int idCounter))),
            (''brand'', JStr (brand config)),
            (''name'', JStr (rawName item)),
            (''type'', JStr type),
            (''color'', JStr color),
            (''price'', JNum (orZero price)),
            (''shape'', JStr shape),
            (''imageColor'', JStr imageColor),
            (''imageUrl'', JStr imageUrl1),
            (''material'',
               JStr (case overrides config of
                       None \<Rightarrow> ''Unknown''
                     | Some ov \<Rightarrow>
                         (case material ov of
                            None \<Rightarrow> ''Unknown''
                          | Some m \<Rightarrow> if m \<noteq> [] then m else ''Unknown''))),
            (''weight'',
               JNum (Finite (case overrides config of
                               None \<Rightarrow> 0
                             | Some ov \<Rightarrow>
                                 (case weight ov of
                                    None \<Rightarrow> 0
                                  | Some x \<Rightarrow> if x \<noteq> 0 then x else 0)))),
            (''sourceUrl'', JStr (if productUrl item \<noteq> [] then productUrl item else url)),
            (''scrapedAt'', JStr (clock w idCounter))])"

text \<open>
  The loop over the items of one page, on the pair of \<open>products\<close> and \<open>idCounter\<close>:
  an item without a name is skipped, any other is pushed with the next id.
\<close>

fun processItems ::
  "world \<Rightarrow> config \<Rightarrow> string \<Rightarrow> raw_item list \<Rightarrow> jsval list \<times> int \<Rightarrow> jsval list \<times> int" where
  "processItems w config url [] (products, idCounter) = (products, idCounter)"
| "processItems w config url (item # items) (products, idCounter) =
     (if rawName item = [] then processItems w config url items (products, idCounter)
      else processItems w config url items
             (products @ [mkProduct w config url idCounter item], idCounter + 1))"

text \<open>
  One pass of the \<open>try\<close>/\<open>catch\<close> of a page: an exception before the items are there
  is caught and logged, and nothing has been pushed.
\<close>

definition tryPage ::
  "world \<Rightarrow> config \<Rightarrow> string \<Rightarrow> jsval list \<times> int \<Rightarrow> jsval list \<times> int" where
  "tryPage w config url st =
     (case pageOutcome w url of
        GotoThrows \<Rightarrow> st
      | RenderThrows \<Rightarrow> st
      | ExtractThrows \<Rightarrow> st
      | Items items \<Rightarrow> processItems w config url items st)"

text \<open>
  The loop over \<open>config.urls\<close>. \<open>browser.newPage()\<close> stands before the \<open>try\<close> and
  \<open>page.close()\<close> in its \<open>finally\<close>: an exception of either leaves the function.
\<close>

fun scrapeUrls ::
  "world \<Rightarrow> config \<Rightarrow> string list \<Rightarrow> (jsval list \<times> int) \<times> event list
     \<Rightarrow> error + (jsval list \<times> int) \<times> event list" where
  "scrapeUrls w config [] (st, trace) = Inr (st, trace)"
| "scrapeUrls w config (url # rest) (st, trace) =
     (if \<not> newPageOk w url then Inl (NewPageError url)
      else let st' = tryPage w config url st
           in if \<not> pageCloseOk w url then Inl (PageCloseError url)
              else scrapeUrls w config rest (st', trace @ [NewPage url, ClosePage url]))"

definition scrapeConfig :: "world \<Rightarrow> config \<Rightarrow> int \<Rightarrow> error + jsval list" where
  "scrapeConfig w config startId =
     (case scrapeUrls w config (urls config) (([], startId), []) of
        Inl e \<Rightarrow> Inl e
      | Inr ((products, idCounter), trace) \<Rightarrow> Inr products)"

section \<open>runScraper\<close>

text \<open>The loop over the configurations, on the pair of \<open>allScraped\<close> and \<open>idCounter\<close>.\<close>

fun runLoop :: "world \<Rightarrow> config list \<Rightarrow> jsval list \<times> int \<Rightarrow> error + jsval list \<times> int" where
  "runLoop w [] (allScraped, idCounter) = Inr (allScraped, idCounter)"
| "runLoop w (config # rest) (allScraped, idCounter) =
     (if \<not> enabled config then runLoop w rest (allScraped, idCounter)
      else case scrapeConfig w config idCounter of
             Inl e \<Rightarrow> Inl e
           | Inr products \<Rightarrow>
               runLoop w rest (allScraped @ products, idCounter + int (length products) + 10))"

text \<open>
  \<open>runScraper\<close> for a list of configurations: it returns \<open>merged\<close> and leaves the
  file with the text \<open>JSON.stringify(merged, null, 2)\<close>.
\<close>

definition runScraperWith ::
  "config list \<Rightarrow> world \<Rightarrow> cache_file \<Rightarrow> error + jsval list \<times> cache_file" where
  "runScraperWith configs w f =
     (let existing = loadExisting f
      in if \<not> launchOk w then Inl LaunchError
         else case runLoop w configs ([], 1000) of
                Inl e \<Rightarrow> Inl e
              | Inr (allScraped, idCounter) \<Rightarrow>
                  if \<not> browserCloseOk w then Inl BrowserCloseError
                  else let merged = existing @ allScraped
                       in if \<not> writeOk w then Inl WriteError
                          else Inr (merged, Content (JSON_stringify (JArr merged))))"

definition runScraper :: "world \<Rightarrow> cache_file \<Rightarrow> error + jsval list \<times> cache_file" where
  "runScraper w f = runScraperWith SCRAPER_CONFIGS w f"

section \<open>Notions for stating the properties\<close>

text \<open>A record that the filter of \<open>runScraper\<close> keeps, and the \<open>id\<close> of a record.\<close>

definition isManual :: "jsval \<Rightarrow> bool" where
  "isManual p = (manualFlag p = Inr True)"

definition idOf :: "jsval \<Rightarrow> jsval option" where
  "idOf p = getProp p ''id''"

text \<open>The elements of a list with consecutive numbers from \<open>n\<close> on.\<close>

fun number :: "int \<Rightarrow> 'a list \<Rightarrow> (int \<times> 'a) list" where
  "number n [] = []"
| "number n (x # xs) = (n, x) # number (n + 1) xs"

text \<open>
  The items with a name that a page gives (none when something throws), and the pairs of
  listing URL and item of a list of pages, in the order of the crawl.
\<close>

definition namedItems :: "world \<Rightarrow> string \<Rightarrow> raw_item list" where
  "namedItems w url =
     (case pageOutcome w url of
        Items items \<Rightarrow> filter (\<lambda>item. rawName item \<noteq> []) items
      | _ \<Rightarrow> [])"

definition pageItems :: "world \<Rightarrow> string list \<Rightarrow> (string \<times> raw_item) list" where
  "pageItems w us = concat (map (\<lambda>u. map (Pair u) (namedItems w u)) us)"

definition pageEvents :: "string list \<Rightarrow> event list" where
  "pageEvents us = concat (map (\<lambda>u. [NewPage u, ClosePage u]) us)"

text \<open>A page whose navigation, rendering or extraction throws.\<close>

definition pageFails :: "world \<Rightarrow> string \<Rightarrow> bool" where
  "pageFails w url =
     (case pageOutcome w url of Items items \<Rightarrow> False | _ \<Rightarrow> True)"

text \<open>
  What a run is to scrape, in the words of the specification: for every enabled
  configuration in order, every item with a name of every page that gave items, with
  consecutive ids from the counter on, and a gap of 10 after each configuration.
\<close>

fun crawlItems :: "world \<Rightarrow> config list \<Rightarrow> int \<Rightarrow> (int \<times> config \<times> string \<times> raw_item) list" where
  "crawlItems w [] n = []"
| "crawlItems w (c # cs) n =
     (if enabled c
      then map (\<lambda>(k, u, item). (k, c, u, item)) (number n (pageItems w (urls c)))
           @ crawlItems w cs (n + int (length (pageItems w (urls c))) + 10)
      else crawlItems w cs n)"

section \<open>Sample inputs\<close>

text \<open>
  A browser for which every call succeeds and every listing page is empty, and one where
  the first listing page of ic! berlin times out and the second shows three product
  nodes, the middle one without a name.
\<close>

definition quietWorld :: world where
  "quietWorld =
     \<lparr>launchOk = True, newPageOk = (\<lambda>u. True), pageOutcome = (\<lambda>u. Items []),
      pageCloseOk = (\<lambda>u. True), browserCloseOk = True,
      clock = (\<lambda>k. ''2024-05-01T10:00:00.000Z''), writeOk = True\<rparr>"

definition aviatorItem :: raw_item where
  "aviatorItem =
     \<lparr>rawName = ''Classic Aviator'', rawPrice = ''1,299.50'', rawColor = ''Gunmetal Grey'',
      imageUrl = ''/media/aviator.jpg'', productUrl = ''/en/p/aviator''\<rparr>"

definition blankItem :: raw_item where
  "blankItem =
     \<lparr>rawName = [], rawPrice = ''99'', rawColor = [], imageUrl = [], productUrl = []\<rparr>"

definition roundItem :: raw_item where
  "roundItem =
     \<lparr>rawName = ''Round Reader'', rawPrice = ''Rs. 1,299'', rawColor = [],
      imageUrl = ''//cdn.example.com/round.jpg'', productUrl = []\<rparr>"

definition sampleWorld :: world where
  "sampleWorld =
     \<lparr>launchOk = True, newPageOk = (\<lambda>u. True),
      pageOutcome =
        (\<lambda>u. if u = ''https://www.ic-berlin.de/en/eyewear/spectacle-frames/'' then GotoThrows
              else if u = ''https://www.ic-berlin.de/en/eyewear/sunglasses/''
              then Items [aviatorItem, blankItem, roundItem]
              else Items []),
      pageCloseOk = (\<lambda>u. True), browserCloseOk = True,
      clock = (\<lambda>k. ''2024-05-01T10:00:00.000Z''), writeOk = True\<rparr>"

text \<open>Two curated records, and a record left by an earlier scrape.\<close>

definition curatedA :: jsval where
  "curatedA = JObj [(''id'', JNum (Finite 1)), (''name'', JStr ''Showroom frame''), (''manual'', JBool True)]"

definition curatedB :: jsval where
  "curatedB = JObj [(''id'', JNum (Finite 1000)), (''name'', JStr ''Trunk show''), (''manual'', JBool True)]"

definition staleRecord :: jsval where
  "staleRecord = JObj [(''id'', JNum (Finite 1003)), (''name'', JStr ''Old scrape'')]"

definition disabledConfig :: config where
  "disabledConfig =
     \<lparr>brand = ''Paused'', enabled = False,
      urls = [''https://www.ic-berlin.de/en/eyewear/sunglasses/''], overrides = None\<rparr>"

text \<open>
  The browser of before when closing the page that timed out throws as well, and a
  curated record whose file gives its price as \<open>1e999\<close>.
\<close>

definition closeFailsWorld :: world where
  "closeFailsWorld =
     sampleWorld
       \<lparr>pageCloseOk := (\<lambda>u. u \<noteq> ''https://www.ic-berlin.de/en/eyewear/spectacle-frames/'')\<rparr>"

definition curatedInf :: jsval where
  "curatedInf =
     JObj [(''id'', JNum (Finite 2)), (''name'', JStr ''Museum piece''),
           (''manual'', JBool True), (''price'', JNum PosInf)]"

text \<open>
  Two curated records whose ids the file gives as \<open>-1e999\<close> and as \<open>null\<close>, and a
  product node whose price text is 310 digits long.
\<close>

definition curatedNegInf :: jsval where
  "curatedNegInf =
     JObj [(''id'', JNum NegInf), (''name'', JStr ''Loan''), (''manual'', JBool True)]"

definition curatedNull :: jsval where
  "curatedNull =
     JObj [(''id'', JNull), (''name'', JStr ''Unnumbered''), (''manual'', JBool True)]"

definition longPriceItem :: raw_item where
  "longPriceItem =
     \<lparr>rawName = ''Auction piece'', rawPrice = replicate 310 CHR ''9'', rawColor = [],
      imageUrl = [], productUrl = []\<rparr>"

section \<open>Properties of the string functions\<close>

lemma startsWith_prefix: "startsWith s k = prefix k s"
  by (induction s k rule: startsWith.induct) auto

lemma includes_sublist: "includes_str s k = sublist k s"
  by (induction s) (auto simp: startsWith_prefix sublist_Cons_right)

lemma toLowerCase_append: "toLowerCase (a @ b) = toLowerCase a @ toLowerCase b"
  by (simp add: toLowerCase_def)

section \<open>The color normalizer\<close>

lemma colorLoop_find:
  "colorLoop lower tbl =
     (case find (\<lambda>(k, v). sublist k lower) tbl of None \<Rightarrow> ''Black'' | Some (k, v) \<Rightarrow> v)"
  by (induction tbl) (auto simp: includes_sublist)

lemma colorLoop_range: "colorLoop lower tbl \<in> insert ''Black'' (snd ` set tbl)"
proof (induction tbl)
  case Nil
  show ?case by simp
next
  case (Cons e tbl)
  obtain key val where e: "e = (key, val)" by (cases e)
  from Cons show ?case unfolding e by force
qed

text \<open>
  C4. \<open>normalizeColor\<close> lower-cases its input and returns the color of the first key of
  the table, in the order black, dark, gold, yellow, silver, chrome, gunmetal, grey, gray,
  tortoise, havana, brown, blue, navy, that the lowered input contains, and Black when it
  contains none. \<open>"Gunmetal Grey"\<close> gives Silver, and the result is always one of the five
  colors.
\<close>

theorem normalizeColor_first_match:
  "map fst COLOR_MAP =
     [''black'', ''dark'', ''gold'', ''yellow'', ''silver'', ''chrome'', ''gunmetal'',
      ''grey'', ''gray'', ''tortoise'', ''havana'', ''brown'', ''blue'', ''navy'']
   \<and> normalizeColor raw =
       (case find (\<lambda>(key, val). sublist key (toLowerCase raw)) COLOR_MAP of
          None \<Rightarrow> ''Black'' | Some (key, val) \<Rightarrow> val)
   \<and> normalizeColor ''Gunmetal Grey'' = ''Silver''
   \<and> normalizeColor raw \<in> set [''Black'', ''Gold'', ''Silver'', ''Tortoise'', ''Blue'']"
proof (intro conjI)
  show "map fst COLOR_MAP =
     [''black'', ''dark'', ''gold'', ''yellow'', ''silver'', ''chrome'', ''gunmetal'',
      ''grey'', ''gray'', ''tortoise'', ''havana'', ''brown'', ''blue'', ''navy'']"
    by (simp add: COLOR_MAP_def)
  show "normalizeColor raw =
       (case find (\<lambda>(key, val). sublist key (toLowerCase raw)) COLOR_MAP of
          None \<Rightarrow> ''Black'' | Some (key, val) \<Rightarrow> val)"
    by (simp add: normalizeColor_def colorLoop_find)
  show "normalizeColor ''Gunmetal Grey'' = ''Silver''"
    by code_simp
  have "normalizeColor raw \<in> insert ''Black'' (snd ` set COLOR_MAP)"
    unfolding normalizeColor_def Let_def by (rule colorLoop_range)
  then show "normalizeColor raw \<in> set [''Black'', ''Gold'', ''Silver'', ''Tortoise'', ''Blue'']"
    by (auto simp: COLOR_MAP_def)
qed

text \<open>On \<open>"Navy Blue"\<close> both blue and navy are contained; blue stands first.\<close>

theorem normalizeColor_first_match_witness:
  "find (\<lambda>(key, val). sublist key (toLowerCase ''Navy Blue'')) COLOR_MAP
     = Some (''blue'', ''Blue'')
   \<and> normalizeColor ''Navy Blue'' = ''Blue''"
proof -
  have f: "find (\<lambda>(key, val). sublist key (toLowerCase ''Navy Blue'')) COLOR_MAP
             = Some (''blue'', ''Blue'')"
    unfolding includes_sublist [symmetric] by code_simp
  show ?thesis using normalizeColor_first_match [of "''Navy Blue''"] f by simp
qed

section \<open>Doubles and the price parser\<close>

lemma exponentOf_bounds:
  assumes "0 < q"
  shows "2 powi exponentOf q \<le> q \<and> q < 2 powi (exponentOf q + 1)"
proof -
  obtain a b where ab: "quotient_of q = (a, b)" by (cases "quotient_of q")
  then have b: "0 < b" and q: "q = of_int a / of_int b"
    using quotient_of_denom_pos quotient_of_div by blast+
  from assms q b have a: "0 < a" by (simp add: zero_less_divide_iff)
  let ?e = "bitlen a - bitlen b"
  have la: "1 \<le> bitlen a" and lb: "1 \<le> bitlen b"
    using a b by (auto simp: bitlen_alt_def)
  from bitlen_bounds [OF a] have a1: "(2::rat) ^ nat (bitlen a - 1) \<le> of_int a"
    and a2: "of_int a < (2::rat) ^ nat (bitlen a)"
    by (metis of_int_le_iff of_int_numeral of_int_power,
        metis of_int_less_iff of_int_numeral of_int_power)
  from bitlen_bounds [OF b] have b1: "(2::rat) ^ nat (bitlen b - 1) \<le> of_int b"
    and b2: "of_int b < (2::rat) ^ nat (bitlen b)"
    by (metis of_int_le_iff of_int_numeral of_int_power,
        metis of_int_less_iff of_int_numeral of_int_power)
  have pa1: "(2::rat) powi (bitlen a - 1) \<le> of_int a" using a1 la by (simp add: power_int_def)
  have pa2: "of_int a < (2::rat) powi (bitlen a)" using a2 la by (simp add: power_int_def)
  have pb1: "(2::rat) powi (bitlen b - 1) \<le> of_int b" using b1 lb by (simp add: power_int_def)
  have pb2: "of_int b < (2::rat) powi (bitlen b)" using b2 lb by (simp add: power_int_def)
  have bpos: "(0::rat) < of_int b" using b by simp
  have lower: "(2::rat) powi (?e - 1) \<le> q"
  proof -
    have "(2::rat) powi (?e - 1) * of_int b \<le> 2 powi (?e - 1) * 2 powi (bitlen b)"
      using pb2 by (intro mult_left_mono) auto
    also have "\<dots> = 2 powi (bitlen a - 1)"
      by (simp add: power_int_add [symmetric])
    also have "\<dots> \<le> of_int a" by (rule pa1)
    finally show ?thesis unfolding q using bpos by (simp add: pos_le_divide_eq)
  qed
  have upper: "q < (2::rat) powi (?e + 1)"
  proof -
    have "of_int a < (2::rat) powi (bitlen a)" by (rule pa2)
    also have "\<dots> = 2 powi (?e + 1) * 2 powi (bitlen b - 1)"
      by (simp add: power_int_add [symmetric])
    also have "\<dots> \<le> 2 powi (?e + 1) * of_int b"
      using pb1 by (intro mult_left_mono) auto
    finally show ?thesis unfolding q using bpos by (simp add: pos_divide_less_eq)
  qed
  show ?thesis
  proof (cases "2 powi ?e \<le> q")
    case True
    then have "exponentOf q = ?e" by (simp add: exponentOf_def ab)
    with True upper show ?thesis by simp
  next
    case False
    then have "exponentOf q = ?e - 1" by (simp add: exponentOf_def ab)
    with False lower show ?thesis by (simp add: not_le)
  qed
qed

lemma exponentOf_ge:
  assumes "0 < q" and "2 powi k \<le> q"
  shows "k \<le> exponentOf q"
proof (rule ccontr)
  assume "\<not> k \<le> exponentOf q"
  then have "exponentOf q + 1 \<le> k" by simp
  then have "(2::rat) powi (exponentOf q + 1) \<le> 2 powi k"
    by (intro power_int_increasing) auto
  with assms(2) exponentOf_bounds [OF assms(1)] show False by simp
qed

lemma nearestEven_ge_floor: "\<lfloor>x\<rfloor> \<le> nearestEven x"
  by (simp add: nearestEven_def Let_def)

text \<open>
  A value of \<open>2^1024\<close> or more has no double: it becomes \<open>Infinity\<close>.
\<close>

lemma toDouble_overflow:
  assumes "2 powi 1024 \<le> q"
  shows "toDouble q = PosInf"
proof -
  have "(0::rat) < 2 powi 1024" by simp
  then have qpos: "0 < q" using assms by (rule less_le_trans)
  let ?e = "exponentOf q"
  have e: "1024 \<le> ?e" using qpos assms by (rule exponentOf_ge)
  then have emax: "max ?e (- 1022) = ?e" by simp
  let ?ulp = "(2::rat) powi (?e - 52)"
  let ?m = "nearestEven (q / ?ulp)"
  have ulp: "0 < ?ulp" by simp
  define p :: rat where "p = 2 powi 52"
  have p_int: "p = of_int (2 ^ 52)" by (simp add: p_def)
  have "p * ?ulp = 2 powi (52 + (?e - 52))"
    unfolding p_def by (rule power_int_add [symmetric]) simp
  then have p_ulp: "p * ?ulp = 2 powi ?e" by simp
  then have "p * ?ulp \<le> q" using exponentOf_bounds [OF qpos] by simp
  then have "p \<le> q / ?ulp" using ulp by (simp add: pos_le_divide_eq)
  then have "of_int (2 ^ 52) \<le> q / ?ulp" unfolding p_int .
  then have "2 ^ 52 \<le> \<lfloor>q / ?ulp\<rfloor>" by (rule le_floor_iff [THEN iffD2])
  then have m: "2 ^ 52 \<le> ?m" using nearestEven_ge_floor by (rule order_trans)
  then have "p \<le> of_int ?m" unfolding p_int by (rule of_int_le_iff [THEN iffD2])
  then have "p * ?ulp \<le> of_int ?m * ?ulp"
    using ulp by (intro mult_right_mono) auto
  then have big: "(2::rat) powi ?e \<le> of_int ?m * ?ulp"
    unfolding p_ulp .
  have "(2::rat) powi 1024 \<le> 2 powi ?e" using e by (intro power_int_increasing) auto
  with big have d: "(2::rat) powi 1024 \<le> of_int ?m * ?ulp" by simp
  then have "0 < of_int ?m * ?ulp" by (intro less_le_trans [OF _ d]) simp
  then have "1024 \<le> exponentOf (of_int ?m * ?ulp)" using d by (rule exponentOf_ge)
  then show ?thesis using qpos by (simp add: toDouble_def Let_def emax)
qed

lemma digitsVal_Nil: "digitsVal [] = 0"
  by (simp add: digitsVal_def)

lemma digitsVal_snoc: "digitsVal (ds @ [d]) = 10 * digitsVal ds + digitVal d"
  by (simp add: digitsVal_def)

lemma digitsVal_nines: "digitsVal (replicate n CHR ''9'') + 1 = 10 ^ n"
proof (induction n)
  case 0
  show ?case by (simp add: digitsVal_def)
next
  case (Suc n)
  have nine: "digitVal CHR ''9'' = 9" by code_simp
  have "replicate (Suc n) CHR ''9'' = replicate n CHR ''9'' @ [CHR ''9'']"
    by (simp add: replicate_append_same)
  then have "digitsVal (replicate (Suc n) CHR ''9'') = 10 * digitsVal (replicate n CHR ''9'') + 9"
    by (simp only: digitsVal_snoc nine)
  with Suc show ?case by simp
qed

lemma parsePrice_nines:
  assumes "0 < n"
  shows "parsePrice (replicate n CHR ''9'') = Math_round (toDouble (of_int (10 ^ n - 1)))"
proof -
  let ?s = "replicate n CHR ''9''"
  have d: "isDigit CHR ''9''" by code_simp
  then have nc: "numChar CHR ''9''" by (simp add: numChar_def)
  have "stripCommas ?s = ?s" by (simp add: stripCommas_def)
  moreover have "dropWhile (\<lambda>c. \<not> numChar c) ?s = ?s"
    using assms nc by (cases n) auto
  moreover have "takeWhile numChar ?s = ?s" using nc by (simp add: takeWhile_eq_all_conv)
  ultimately have m: "matchNumeric (stripCommas ?s) = Some ?s"
    using assms by (simp add: matchNumeric_def)
  have tw: "takeWhile isDigit ?s = ?s" using d by (simp add: takeWhile_eq_all_conv)
  have dw: "dropWhile isDigit ?s = []" using d by simp
  have v: "digitsVal ?s = 10 ^ n - 1" using digitsVal_nines [of n] by simp
  have "?s \<noteq> []" using assms by simp
  then have "parseFloat ?s = toDouble (of_int (digitsVal ?s))"
    unfolding parseFloat_def tw dw by (simp add: digitsVal_Nil)
  then have "parseFloat ?s = toDouble (of_int (10 ^ n - 1))"
    unfolding v .
  with m show ?thesis by (simp add: parsePrice_def)
qed

text \<open>
  A price text of 310 digits is beyond the doubles, and \<open>Math.round\<close> leaves
  \<open>Infinity\<close> as it is.
\<close>

lemma parsePrice_310_digits: "parsePrice (replicate 310 CHR ''9'') = PosInf"
proof -
  have "(2::rat) powi 1024 \<le> of_int (10 ^ 310 - 1)"
    by (simp add: power_int_def)
  then have "toDouble (of_int (10 ^ 310 - 1)) = PosInf" by (rule toDouble_overflow)
  then show ?thesis by (simp add: parsePrice_nines)
qed

text \<open>
  Prices as the doubles give them: \<open>0.49999999999999999\<close> is read as one half and
  rounds to 1, and \<open>9007199254740993\<close>, which lies between two doubles, to the even
  one below.
\<close>

lemma parsePrice_examples:
  "parsePrice ''1,299.50'' = Finite 1300
   \<and> parsePrice [] = Finite 0
   \<and> parsePrice ''Call for price'' = Finite 0
   \<and> parsePrice ''0.49999999999999999'' = Finite 1
   \<and> parsePrice ''9007199254740993'' = Finite 9007199254740992"
  by code_simp

text \<open>
  C3 fails on the code. In \<open>Rs. 1,299\<close> the leftmost run of digits and dots is the
  full stop of the abbreviation; \<open>parseFloat(".")\<close> is \<open>NaN\<close>, and so is the result:
  neither a non-negative integer nor the 0 that a text without a number gets, while
  the amount that follows is never read.
\<close>

theorem parsePrice_lone_dot:
  "matchNumeric (stripCommas ''Rs. 1,299'') = Some ''.''
   \<and> parseFloat ''.'' = NaN
   \<and> parsePrice ''Rs. 1,299'' = NaN
   \<and> parsePrice ''Call for price'' = Finite 0
   \<and> parsePrice ''1,299.50'' = Finite 1300"
  by code_simp

section \<open>The type detector on a listing page\<close>

lemma sublist_across:
  assumes "c \<notin> set k"
  shows "sublist k (a @ c # b) = (sublist k a \<or> sublist k b)"
proof
  assume "sublist k (a @ c # b)"
  then consider "sublist k a" | "sublist k (c # b)"
    | k1 k2 where "k = k1 @ k2" "suffix k1 a" "prefix k2 (c # b)"
    unfolding sublist_append by blast
  then show "sublist k a \<or> sublist k b"
  proof cases
    case 1
    then show ?thesis by simp
  next
    case 2
    then show ?thesis using assms
      by (auto simp: sublist_Cons_right prefix_Cons)
  next
    case 3
    from 3(3) assms 3(1) have "k2 = []" by (cases k2) auto
    with 3 have "suffix k a" by simp
    then show ?thesis by (simp add: suffix_imp_sublist)
  qed
next
  assume "sublist k a \<or> sublist k b"
  then show "sublist k (a @ c # b)"
    by (metis sublist_append sublist_Cons_right)
qed

lemma testAny_sublist: "testAny ws text = (\<exists>k\<in>set ws. sublist k text)"
  by (simp add: testAny_def list_ex_iff includes_sublist)

lemma lowerChar_space: "lowerChar CHR '' '' = CHR '' ''"
  by code_simp

lemma typeWords_across:
  "testAny typeWords (a @ CHR '' '' # CHR '' '' # b) = (testAny typeWords a \<or> testAny typeWords b)"
proof -
  have "sublist k (a @ CHR '' '' # CHR '' '' # b) = (sublist k a \<or> sublist k b)"
    if "k \<in> set typeWords" for k
  proof -
    from that have sp: "CHR '' '' \<notin> set k" and ne: "k \<noteq> []"
      by (auto simp: typeWords_def)
    have "sublist k (CHR '' '' # b) = sublist k b"
      using sublist_across [OF sp, of "[]" b] ne by simp
    then show ?thesis using sublist_across [OF sp, of a "CHR '' '' # b"] by simp
  qed
  then show ?thesis unfolding testAny_sublist by blast
qed

lemma detectType_listing:
  "detectType name [] url =
     (if testAny typeWords (toLowerCase name) \<or> testAny typeWords (toLowerCase url)
      then ''Sunglasses'' else ''Optical'')"
  by (simp add: detectType_def toLowerCase_append typeWords_across)
    (simp add: toLowerCase_def lowerChar_space typeWords_across)

section \<open>The loops in closed form\<close>

lemma number_append: "number n (xs @ ys) = number n xs @ number (n + int (length xs)) ys"
  by (induction xs arbitrary: n) (auto simp: algebra_simps)

lemma length_number [simp]: "length (number n xs) = length xs"
  by (induction xs arbitrary: n) auto

lemma map_snd_number [simp]: "map snd (number n xs) = xs"
  by (induction xs arbitrary: n) auto

lemma map_fst_number: "map fst (number n xs) = [n..n + int (length xs) - 1]"
proof (induction xs arbitrary: n)
  case Nil
  show ?case by simp
next
  case (Cons x xs)
  have "[n..n + int (length (x # xs)) - 1] = n # [n + 1..n + 1 + int (length xs) - 1]"
    by (subst upto_rec1) (auto simp: algebra_simps)
  with Cons show ?case by simp
qed

lemma processItems_closed:
  "processItems w c url items (ps, n) =
     (ps @ map (\<lambda>(k, item). mkProduct w c url k item)
             (number n (filter (\<lambda>item. rawName item \<noteq> []) items)),
      n + int (length (filter (\<lambda>item. rawName item \<noteq> []) items)))"
  by (induction items arbitrary: ps n) (auto simp: algebra_simps)

lemma tryPage_closed:
  "tryPage w c url (ps, n) =
     (ps @ map (\<lambda>(k, item). mkProduct w c url k item) (number n (namedItems w url)),
      n + int (length (namedItems w url)))"
  by (cases "pageOutcome w url") (simp_all add: tryPage_def namedItems_def processItems_closed)

lemma tryPage_fails: "pageFails w url \<Longrightarrow> tryPage w c url st = st"
  by (cases "pageOutcome w url") (simp_all add: tryPage_def pageFails_def)

lemma map_number_Pair:
  "map (\<lambda>(k, u, item). f u k item) (number n (map (Pair u) xs))
     = map (\<lambda>(k, item). f u k item) (number n xs)"
  by (induction xs arbitrary: n) auto

lemma scrapeUrls_closed:
  assumes "\<forall>u\<in>set us. newPageOk w u \<and> pageCloseOk w u"
  shows "scrapeUrls w c us ((ps, n), tr) =
           Inr ((ps @ map (\<lambda>(k, u, item). mkProduct w c u k item) (number n (pageItems w us)),
                 n + int (length (pageItems w us))),
                tr @ pageEvents us)"
  using assms
proof (induction us arbitrary: ps n tr)
  case Nil
  show ?case by (simp add: pageItems_def pageEvents_def)
next
  case (Cons u us)
  have split: "pageItems w (u # us) = map (Pair u) (namedItems w u) @ pageItems w us"
    by (simp add: pageItems_def)
  have ev: "pageEvents (u # us) = [NewPage u, ClosePage u] @ pageEvents us"
    by (simp add: pageEvents_def)
  from Cons.prems have ok: "newPageOk w u" "pageCloseOk w u"
    and rest: "\<forall>u\<in>set us. newPageOk w u \<and> pageCloseOk w u" by auto
  show ?case
    unfolding split ev
    by (simp add: ok tryPage_closed Cons.IH [OF rest] number_append map_number_Pair
        algebra_simps)
qed

lemma scrapeUrls_Inr:
  assumes "scrapeUrls w c us (st, tr) = Inr r"
  shows "\<forall>u\<in>set us. newPageOk w u \<and> pageCloseOk w u"
  using assms
proof (induction us arbitrary: st tr)
  case Nil
  show ?case by simp
next
  case (Cons u us)
  then show ?case by (auto simp: Let_def split: if_splits)
qed

lemma scrapeConfig_closed:
  assumes "\<forall>u\<in>set (urls c). newPageOk w u \<and> pageCloseOk w u"
  shows "scrapeConfig w c n =
           Inr (map (\<lambda>(k, u, item). mkProduct w c u k item) (number n (pageItems w (urls c))))"
  by (simp add: scrapeConfig_def scrapeUrls_closed [OF assms])

lemma scrapeConfig_Inr:
  assumes "scrapeConfig w c n = Inr ps"
  shows "(\<forall>u\<in>set (urls c). newPageOk w u \<and> pageCloseOk w u)
         \<and> ps = map (\<lambda>(k, u, item). mkProduct w c u k item) (number n (pageItems w (urls c)))"
proof -
  from assms obtain r where r: "scrapeUrls w c (urls c) (([], n), []) = Inr r"
    by (auto simp: scrapeConfig_def split: sum.splits)
  then have ok: "\<forall>u\<in>set (urls c). newPageOk w u \<and> pageCloseOk w u"
    by (rule scrapeUrls_Inr)
  with assms show ?thesis by (simp add: scrapeConfig_closed)
qed

lemma idOf_mkProduct: "idOf (mkProduct w c u k item) = Some (JNum (Finite (of_int k)))"
  by (simp add: idOf_def mkProduct_def Let_def)

lemma manualFlag_mkProduct: "manualFlag (mkProduct w c u k item) = Inr False"
  by (simp add: mkProduct_def Let_def)

lemma map_idOf_products:
  "map idOf (map (\<lambda>(k, u, item). mkProduct w c u k item) (number n xs))
     = map (\<lambda>k. Some (JNum (Finite (of_int k)))) [n..n + int (length xs) - 1]"
proof -
  have "map idOf (map (\<lambda>(k, u, item). mkProduct w c u k item) (number n xs))
          = map (\<lambda>k. Some (JNum (Finite (of_int k)))) (map fst (number n xs))"
    by (simp add: idOf_mkProduct split_def)
  then show ?thesis by (simp add: map_fst_number)
qed

lemma runLoop_acc:
  "runLoop w cs (acc, n) =
     (case runLoop w cs ([], n) of Inl e \<Rightarrow> Inl e | Inr (new, n') \<Rightarrow> Inr (acc @ new, n'))"
proof (induction cs arbitrary: acc n)
  case Nil
  show ?case by simp
next
  case (Cons c cs)
  show ?case
  proof (cases "enabled c")
    case False
    then show ?thesis using Cons.IH [of acc n] by simp
  next
    case True
    show ?thesis
    proof (cases "scrapeConfig w c n")
      case (Inl e)
      with True show ?thesis by simp
    next
      case (Inr ps)
      show ?thesis
        using True Inr Cons.IH [of "acc @ ps" "n + int (length ps) + 10"]
          Cons.IH [of "ps" "n + int (length ps) + 10"]
        by (auto split: sum.splits)
    qed
  qed
qed

lemma runLoop_disabled:
  "\<not> enabled c \<Longrightarrow> runLoop w (cs1 @ c # cs2) st = runLoop w (cs1 @ cs2) st"
proof (induction cs1 arbitrary: st)
  case Nil
  then show ?case by (cases st) simp
next
  case (Cons d cs1)
  then show ?case by (cases st) (auto split: sum.splits)
qed

lemma runLoop_filter: "runLoop w (filter enabled cs) st = runLoop w cs st"
proof (induction cs arbitrary: st)
  case Nil
  show ?case by simp
next
  case (Cons c cs)
  then show ?case by (cases st) (auto split: sum.splits)
qed

lemma runLoop_ids:
  assumes "runLoop w cs ([], n) = Inr (new, n')"
  shows "\<exists>ks. map idOf new = map (\<lambda>k. Some (JNum (Finite (of_int k)))) ks
              \<and> sorted_wrt (<) ks \<and> (\<forall>k\<in>set ks. n \<le> k \<and> k < n') \<and> n \<le> n'"
  using assms
proof (induction cs arbitrary: new n n')
  case Nil
  then show ?case by simp
next
  case (Cons c cs)
  show ?case
  proof (cases "enabled c")
    case False
    with Cons.prems have "runLoop w cs ([], n) = Inr (new, n')" by simp
    then show ?thesis by (rule Cons.IH)
  next
    case True
    with Cons.prems obtain ps where ps: "scrapeConfig w c n = Inr ps"
      and run: "runLoop w cs (ps, n + int (length ps) + 10) = Inr (new, n')"
      by (auto split: sum.splits)
    let ?m = "n + int (length ps) + 10"
    from run obtain rest where rest: "runLoop w cs ([], ?m) = Inr (rest, n')"
      and new: "new = ps @ rest"
      by (subst (asm) runLoop_acc) (auto split: sum.splits)
    from Cons.IH [OF rest] obtain ks where ks:
      "map idOf rest = map (\<lambda>k. Some (JNum (Finite (of_int k)))) ks" "sorted_wrt (<) ks"
      "\<forall>k\<in>set ks. ?m \<le> k \<and> k < n'" "?m \<le> n'" by blast
    let ?xs = "pageItems w (urls c)"
    from scrapeConfig_Inr [OF ps]
    have psdef: "ps = map (\<lambda>(k, u, item). mkProduct w c u k item) (number n ?xs)" by simp
    then have len: "length ps = length ?xs" by simp
    have ids: "map idOf ps = map (\<lambda>k. Some (JNum (Finite (of_int k)))) [n..n + int (length ps) - 1]"
      unfolding len by (subst psdef) (rule map_idOf_products)
    let ?ks = "[n..n + int (length ps) - 1] @ ks"
    have "map idOf new = map (\<lambda>k. Some (JNum (Finite (of_int k)))) ?ks"
      using ids ks(1) new by simp
    moreover have "sorted_wrt (<) ?ks"
      using ks(2,3) by (auto simp: sorted_wrt_append)
    moreover have "\<forall>k\<in>set ?ks. n \<le> k \<and> k < n'" using ks(3,4) by auto
    moreover have "n \<le> n'" using ks(4) by simp
    ultimately show ?thesis by blast
  qed
qed

lemma runLoop_products:
  assumes "runLoop w cs ([], n) = Inr (new, n')" and "p \<in> set new"
  shows "\<exists>c\<in>set cs. \<exists>k u item. enabled c \<and> u \<in> set (urls c) \<and> item \<in> set (namedItems w u)
           \<and> p = mkProduct w c u k item"
  using assms
proof (induction cs arbitrary: new n n')
  case Nil
  then show ?case by simp
next
  case (Cons c cs)
  show ?case
  proof (cases "enabled c")
    case False
    with Cons.prems have "runLoop w cs ([], n) = Inr (new, n')" by simp
    from Cons.IH [OF this Cons.prems(2)] show ?thesis by auto
  next
    case True
    with Cons.prems obtain ps where ps: "scrapeConfig w c n = Inr ps"
      and run: "runLoop w cs (ps, n + int (length ps) + 10) = Inr (new, n')"
      by (auto split: sum.splits)
    let ?m = "n + int (length ps) + 10"
    from run obtain rest where rest: "runLoop w cs ([], ?m) = Inr (rest, n')"
      and new: "new = ps @ rest"
      by (subst (asm) runLoop_acc) (auto split: sum.splits)
    from Cons.prems(2) new consider "p \<in> set ps" | "p \<in> set rest" by auto
    then show ?thesis
    proof cases
      case 1
      from scrapeConfig_Inr [OF ps]
      have "ps = map (\<lambda>(k, u, item). mkProduct w c u k item) (number n (pageItems w (urls c)))"
        by simp
      with 1 obtain k u item where kx: "(k, u, item) \<in> set (number n (pageItems w (urls c)))"
        and p: "p = mkProduct w c u k item" by auto
      from kx have "snd (k, u, item) \<in> set (map snd (number n (pageItems w (urls c))))"
        unfolding set_map by (rule imageI)
      then have "(u, item) \<in> set (pageItems w (urls c))" by simp
      then have "u \<in> set (urls c)" "item \<in> set (namedItems w u)"
        by (auto simp: pageItems_def)
      with p True show ?thesis by auto
    next
      case 2
      from Cons.IH [OF rest 2] show ?thesis by auto
    qed
  qed
qed

section \<open>The store and the run\<close>

lemma stored_idem: "stored (stored v) = stored v"
proof (induction v)
  case (JNum x)
  show ?case by (cases x) simp_all
next
  case (JObj kvs)
  then show ?case by (auto simp: map_prod_def split_def) 
qed simp_all

lemma stored_eq_JNum: "(stored v = JNum x) = (\<exists>q. x = Finite q \<and> v = JNum (Finite q))"
proof (cases v)
  case (JNum y)
  then show ?thesis by (cases y) auto
qed auto

lemma stored_eq_JBool: "(stored v = JBool b) = (v = JBool b)"
proof (cases v)
  case (JNum y)
  then show ?thesis by (cases y) auto
qed auto

lemma map_of_map_stored:
  "map_of (map (map_prod id stored) kvs) k = map_option stored (map_of kvs k)"
  by (induction kvs) auto

lemma getProp_stored: "getProp (stored p) k = map_option stored (getProp p k)"
proof (cases p)
  case (JNum x)
  then show ?thesis by (cases x) simp_all
qed (simp_all add: map_of_map_stored)

lemma idOf_stored: "idOf (stored p) = map_option stored (idOf p)"
  by (simp add: idOf_def getProp_stored)

lemma isManual_iff: "isManual p = (getProp p ''manual'' = Some (JBool True))"
  by (cases p) (simp_all add: isManual_def)

lemma isManual_stored: "isManual (stored p) = isManual p"
  by (auto simp: isManual_iff getProp_stored stored_eq_JBool)

lemma isManual_not_null: "isManual r \<Longrightarrow> r \<noteq> JNull"
  by (auto simp: isManual_def)

lemma isManual_stored_not_null: "isManual r \<Longrightarrow> stored r \<noteq> JNull"
  using isManual_stored [of r] isManual_not_null [of "stored r"] by simp

lemma stored_mkProduct_not_null: "stored (mkProduct w c u k item) \<noteq> JNull"
  by (simp add: mkProduct_def Let_def)

lemma not_manual_mkProduct: "\<not> isManual (mkProduct w c u k item)"
  by (simp add: isManual_def manualFlag_mkProduct)

lemma manualFlag_not_null: "p \<noteq> JNull \<Longrightarrow> manualFlag p = Inr (isManual p)"
  by (cases p) (simp_all add: isManual_def)

lemma filterList_no_null:
  "JNull \<notin> set ps \<Longrightarrow> filterList ps = Inr (filter isManual ps)"
proof (induction ps)
  case Nil
  show ?case by simp
next
  case (Cons p ps)
  then have "p \<noteq> JNull" and "JNull \<notin> set ps" by auto
  with Cons.IH show ?case by (simp add: manualFlag_not_null)
qed

lemma filterList_null: "JNull \<in> set ps \<Longrightarrow> filterList ps = Inl TypeError"
proof (induction ps)
  case Nil
  then show ?case by simp
next
  case (Cons p ps)
  show ?case
  proof (cases "p = JNull")
    case True
    then show ?thesis by simp
  next
    case False
    with Cons have "filterList ps = Inl TypeError" by simp
    with False show ?thesis by (simp add: manualFlag_not_null)
  qed
qed

lemma loadExisting_array:
  "JNull \<notin> set old \<Longrightarrow> loadExisting (Content (Json (JArr old))) = filter isManual old"
  by (simp add: loadExisting_def readStore_def filterList_no_null)

lemma loadExisting_null:
  "JNull \<in> set old \<Longrightarrow> loadExisting (Content (Json (JArr old))) = []"
  by (simp add: loadExisting_def readStore_def filterList_null)

lemma loadExisting_cases:
  "loadExisting f = []
   \<or> (\<exists>old. f = Content (Json (JArr old)) \<and> JNull \<notin> set old
            \<and> loadExisting f = filter isManual old)"
proof (cases f)
  case (Content t)
  show ?thesis
  proof (cases t)
    case NotJson
    with Content show ?thesis by (simp add: loadExisting_def readStore_def)
  next
    case (Json raw)
    show ?thesis
    proof (cases raw)
      case (JArr old)
      show ?thesis
      proof (cases "JNull \<in> set old")
        case True
        then show ?thesis using Content Json JArr by (simp add: loadExisting_null)
      next
        case False
        then show ?thesis using Content Json JArr by (simp add: loadExisting_array)
      qed
    qed (simp_all add: Content Json loadExisting_def readStore_def)
  qed
qed (simp_all add: loadExisting_def readStore_def)

lemma loadExisting_manual:
  assumes "r \<in> set (loadExisting f)"
  shows "isManual r"
proof -
  from assms loadExisting_cases [of f] obtain old
    where "loadExisting f = filter isManual old" by auto
  with assms show ?thesis by simp
qed

lemma runLoop_not_manual:
  assumes "runLoop w cs ([], n) = Inr (new, n')" and "p \<in> set new"
  shows "\<not> isManual p \<and> stored p \<noteq> JNull"
  using runLoop_products [OF assms] by (auto simp: not_manual_mkProduct stored_mkProduct_not_null)

lemma runScraperWith_Inr:
  "(runScraperWith cfgs w f = Inr (merged, f')) =
     (launchOk w \<and> browserCloseOk w \<and> writeOk w
      \<and> (\<exists>scraped n. runLoop w cfgs ([], 1000) = Inr (scraped, n)
            \<and> merged = loadExisting f @ scraped
            \<and> f' = Content (Json (JArr (map stored merged)))))"
  by (auto simp: runScraperWith_def Let_def JSON_stringify_def split: sum.splits)

lemma loadExisting_after:
  assumes "runLoop w cs ([], n) = Inr (scraped, n')"
  shows "loadExisting (Content (Json (JArr (map stored (loadExisting f @ scraped)))))
           = map stored (loadExisting f)"
proof -
  let ?kept = "loadExisting f"
  have kept: "\<forall>r\<in>set ?kept. isManual r" using loadExisting_manual by blast
  have fresh: "\<forall>p\<in>set scraped. \<not> isManual p \<and> stored p \<noteq> JNull"
    using runLoop_not_manual [OF assms] by blast
  have "stored x \<noteq> JNull" if "x \<in> set (?kept @ scraped)" for x
    using that kept fresh isManual_stored_not_null by auto
  then have nonull: "JNull \<notin> set (map stored (?kept @ scraped))"
    unfolding set_map by (metis imageE)
  have "filter isManual (map stored ?kept) = map stored ?kept"
    using kept by (simp add: filter_map comp_def isManual_stored)
  moreover have "filter isManual (map stored scraped) = []"
    using fresh by (simp add: filter_map comp_def isManual_stored)
  ultimately have "filter isManual (map stored (?kept @ scraped)) = map stored ?kept" by simp
  with loadExisting_array [OF nonull] show ?thesis by simp
qed

lemma runLoop_total:
  assumes "\<forall>c\<in>set cs. enabled c \<longrightarrow> (\<forall>u\<in>set (urls c). newPageOk w u \<and> pageCloseOk w u)"
  shows "\<exists>r. runLoop w cs st = Inr r"
  using assms
proof (induction cs arbitrary: st)
  case Nil
  show ?case by (cases st) simp
next
  case (Cons c cs)
  obtain acc n where st: "st = (acc, n)" by (cases st)
  from Cons.prems have rest:
    "\<forall>c\<in>set cs. enabled c \<longrightarrow> (\<forall>u\<in>set (urls c). newPageOk w u \<and> pageCloseOk w u)" by simp
  show ?case
  proof (cases "enabled c")
    case False
    then show ?thesis using Cons.IH [OF rest] st by simp
  next
    case True
    with Cons.prems have "\<forall>u\<in>set (urls c). newPageOk w u \<and> pageCloseOk w u" by simp
    from scrapeConfig_closed [OF this] obtain ps where "scrapeConfig w c n = Inr ps" by blast
    then show ?thesis using True Cons.IH [OF rest] st by simp
  qed
qed

lemma runLoop_closed:
  assumes "\<forall>c\<in>set cs. enabled c \<longrightarrow> (\<forall>u\<in>set (urls c). newPageOk w u \<and> pageCloseOk w u)"
  shows "\<exists>n'. runLoop w cs ([], n)
           = Inr (map (\<lambda>(k, c, u, item). mkProduct w c u k item) (crawlItems w cs n), n')"
  using assms
proof (induction cs arbitrary: n)
  case Nil
  show ?case by simp
next
  case (Cons c cs)
  from Cons.prems have rest:
    "\<forall>c\<in>set cs. enabled c \<longrightarrow> (\<forall>u\<in>set (urls c). newPageOk w u \<and> pageCloseOk w u)" by simp
  show ?case
  proof (cases "enabled c")
    case False
    then show ?thesis using Cons.IH [OF rest, of n] by simp
  next
    case True
    with Cons.prems have ok: "\<forall>u\<in>set (urls c). newPageOk w u \<and> pageCloseOk w u" by simp
    let ?xs = "pageItems w (urls c)"
    let ?ps = "map (\<lambda>(k, u, item). mkProduct w c u k item) (number n ?xs)"
    have sc: "scrapeConfig w c n = Inr ?ps" by (rule scrapeConfig_closed [OF ok])
    have len: "length ?ps = length ?xs" by simp
    from Cons.IH [OF rest, of "n + int (length ?xs) + 10"] obtain n' where
      r: "runLoop w cs ([], n + int (length ?xs) + 10)
            = Inr (map (\<lambda>(k, c, u, item). mkProduct w c u k item)
                     (crawlItems w cs (n + int (length ?xs) + 10)), n')" by blast
    have "runLoop w (c # cs) ([], n) = runLoop w cs (?ps, n + int (length ?xs) + 10)"
      using True sc len by simp
    also have "\<dots> = Inr (?ps @ map (\<lambda>(k, c, u, item). mkProduct w c u k item)
                     (crawlItems w cs (n + int (length ?xs) + 10)), n')"
      by (subst runLoop_acc) (simp add: r)
    also have "?ps @ map (\<lambda>(k, c, u, item). mkProduct w c u k item)
                     (crawlItems w cs (n + int (length ?xs) + 10))
               = map (\<lambda>(k, c, u, item). mkProduct w c u k item) (crawlItems w (c # cs) n)"
      using True by (simp add: split_def comp_def)
    finally show ?thesis by blast
  qed
qed

lemma crawlItems_complete:
  assumes "d \<in> set cs" and "enabled d" and "u \<in> set (urls d)" and "item \<in> set (namedItems w u)"
  shows "\<exists>k. (k, d, u, item) \<in> set (crawlItems w cs n)"
  using assms(1)
proof (induction cs arbitrary: n)
  case Nil
  then show ?case by simp
next
  case (Cons c cs)
  show ?case
  proof (cases "d = c")
    case True
    have "(u, item) \<in> set (pageItems w (urls c))"
      using assms(3,4) True by (auto simp: pageItems_def)
    then have "(u, item) \<in> snd ` set (number n (pageItems w (urls c)))"
      by (simp only: set_map [symmetric] map_snd_number)
    then obtain k where "(k, u, item) \<in> set (number n (pageItems w (urls c)))"
      by force
    then have "(k, c, u, item) \<in> set (crawlItems w (c # cs) n)"
      using assms(2) True by force
    with True show ?thesis by blast
  next
    case False
    with Cons.prems have "d \<in> set cs" by simp
    from Cons.IH [OF this] show ?thesis by (cases "enabled c") auto
  qed
qed

lemma crawlItems_sound:
  assumes "(k, d, u, item) \<in> set (crawlItems w cs n)"
  shows "d \<in> set cs \<and> enabled d \<and> u \<in> set (urls d) \<and> item \<in> set (namedItems w u)"
  using assms
proof (induction cs arbitrary: n)
  case Nil
  then show ?case by simp
next
  case (Cons c cs)
  show ?case
  proof (cases "enabled c")
    case False
    with Cons.prems have "(k, d, u, item) \<in> set (crawlItems w cs n)" by simp
    from Cons.IH [OF this] show ?thesis by simp
  next
    case True
    with Cons.prems have "(k, d, u, item) \<in>
        set (map (\<lambda>(k, u, item). (k, c, u, item)) (number n (pageItems w (urls c))))
        \<union> set (crawlItems w cs (n + int (length (pageItems w (urls c))) + 10))"
      by (simp only: crawlItems.simps if_True set_append)
    then consider
      "(k, d, u, item) \<in> set (map (\<lambda>(k, u, item). (k, c, u, item)) (number n (pageItems w (urls c))))"
      | "(k, d, u, item) \<in> set (crawlItems w cs (n + int (length (pageItems w (urls c))) + 10))"
      by blast
    then show ?thesis
    proof cases
      case 1
      then have dc: "d = c" and kx: "(k, u, item) \<in> set (number n (pageItems w (urls c)))"
        by auto
      from kx have "snd (k, u, item) \<in> set (map snd (number n (pageItems w (urls c))))"
        unfolding set_map by (rule imageI)
      then have "(u, item) \<in> set (pageItems w (urls c))" by simp
      then show ?thesis using dc True by (auto simp: pageItems_def)
    next
      case 2
      from Cons.IH [OF this] show ?thesis by simp
    qed
  qed
qed

section \<open>Reconciliation\<close>

text \<open>
  Over an array without a \<open>null\<close> element the manual records are kept, in their
  order, before the scraped ones.
\<close>

lemma manual_kept_without_null:
  assumes "runScraperWith cfgs w (Content (Json (JArr old))) = Inr (merged, f')"
    and "JNull \<notin> set old"
  shows "\<exists>scraped. merged = filter isManual old @ scraped
           \<and> f' = Content (Json (JArr (map stored merged)))"
  using assms unfolding runScraperWith_Inr by (auto simp: loadExisting_array)

text \<open>
  C1 fails on the code. A \<open>null\<close> entry in the stored array makes the filter callback
  throw inside the \<open>try\<close>: \<open>existing\<close> stays empty, and the curated record beside it
  is gone from the merged output and from the rewritten file. Without the entry the
  same record is kept.
\<close>

theorem runScraper_null_entry:
  "isManual curatedA
   \<and> loadExisting (Content (Json (JArr [JNull, curatedA]))) = []
   \<and> runScraper quietWorld (Content (Json (JArr [JNull, curatedA])))
       = Inr ([], Content (Json (JArr [])))
   \<and> runScraper quietWorld (Content (Json (JArr [curatedA])))
       = Inr ([curatedA], Content (Json (JArr [curatedA])))"
  by code_simp

text \<open>
  C2, as the code has it. In every run that returns, the scraped records carry integer
  ids that increase strictly in crawl order and start at 1000. If the manual records the
  run keeps have ids that are pairwise different as JSON writes them (a number that is
  not finite is written as \<open>null\<close>), none of them an integer from 1000 on, then no
  two records share an id, in the merged catalog and in the catalog read back from the
  file. After the run the file keeps the same manual records as JSON writes them, and
  they meet the same two conditions: the same holds for every later run.
\<close>

theorem merged_ids_distinct:
  assumes "runScraperWith cfgs w f = Inr (merged, f')"
    and "distinct (map (\<lambda>r. map_option stored (idOf r)) (loadExisting f))"
    and "\<forall>r\<in>set (loadExisting f). \<forall>k. 1000 \<le> k \<longrightarrow> idOf r \<noteq> Some (JNum (Finite (of_int k)))"
  shows "\<exists>scraped n ks. runLoop w cfgs ([], 1000) = Inr (scraped, n)
           \<and> merged = loadExisting f @ scraped
           \<and> map idOf scraped = map (\<lambda>k. Some (JNum (Finite (of_int k)))) ks
           \<and> sorted_wrt (<) ks \<and> (\<forall>k\<in>set ks. 1000 \<le> k \<and> k < n)
           \<and> distinct (map idOf merged)
           \<and> loadCachedProducts f' = Inr (JArr (map stored merged))
           \<and> distinct (map idOf (map stored merged))
           \<and> loadExisting f' = map stored (loadExisting f)
           \<and> distinct (map (\<lambda>r. map_option stored (idOf r)) (loadExisting f'))
           \<and> (\<forall>r\<in>set (loadExisting f'). \<forall>k. 1000 \<le> k \<longrightarrow>
                  idOf r \<noteq> Some (JNum (Finite (of_int k))))"
proof -
  let ?kept = "loadExisting f"
  let ?sid = "\<lambda>r. map_option stored (idOf r)"
  let ?num = "\<lambda>k::int. Some (JNum (Finite (of_int k)))"
  from assms(1) obtain scraped n where run: "runLoop w cfgs ([], 1000) = Inr (scraped, n)"
    and merged: "merged = ?kept @ scraped"
    and f': "f' = Content (Json (JArr (map stored merged)))"
    unfolding runScraperWith_Inr by blast
  from runLoop_ids [OF run] obtain ks where
    ids: "map idOf scraped = map ?num ks"
    and sorted: "sorted_wrt (<) ks" and range: "\<forall>k\<in>set ks. 1000 \<le> k \<and> k < n"
    by blast
  have inj: "inj_on ?num (set ks)" by (rule inj_onI) simp
  have "distinct ks" using sorted by (simp add: strict_sorted_iff)
  then have d2: "distinct (map idOf scraped)"
    unfolding ids using inj by (simp add: distinct_map)
  have sid_num: "?sid r = ?num k \<Longrightarrow> idOf r = ?num k" for r k
    by (cases "idOf r") (auto simp: stored_eq_JNum)
  have sids: "map ?sid scraped = map ?num ks"
  proof -
    have "map ?sid scraped = map (map_option stored) (map idOf scraped)" by simp
    also have "\<dots> = map ?num ks" unfolding ids by simp
    finally show ?thesis .
  qed
  have d1: "distinct (map idOf ?kept)"
  proof -
    have "distinct (map (map_option stored) (map idOf ?kept))"
      using assms(2) by (simp add: comp_def)
    then show ?thesis by (rule distinct_map [THEN iffD1, THEN conjunct1])
  qed
  have disj: "set (map idOf ?kept) \<inter> set (map idOf scraped) = {}"
  proof (rule ccontr)
    assume "set (map idOf ?kept) \<inter> set (map idOf scraped) \<noteq> {}"
    then obtain r k where "r \<in> set ?kept" "k \<in> set ks" "idOf r = ?num k"
      unfolding ids by auto
    with assms(3) range show False by blast
  qed
  have sdisj: "set (map ?sid ?kept) \<inter> set (map ?sid scraped) = {}"
  proof (rule ccontr)
    assume "set (map ?sid ?kept) \<inter> set (map ?sid scraped) \<noteq> {}"
    then obtain r k where r: "r \<in> set ?kept" "k \<in> set ks" and "?sid r = ?num k"
      unfolding sids by auto
    then have "idOf r = ?num k" using sid_num by blast
    with assms(3) range r show False by blast
  qed
  have dm: "distinct (map idOf merged)"
    unfolding merged using d1 d2 disj by simp
  have "map idOf (map stored merged) = map ?sid ?kept @ map ?sid scraped"
    unfolding merged by (simp add: idOf_stored comp_def)
  moreover have "distinct (map ?sid scraped)" unfolding sids using \<open>distinct ks\<close> inj
    by (simp add: distinct_map)
  ultimately have ds: "distinct (map idOf (map stored merged))"
    using assms(2) sdisj by simp
  have cached: "loadCachedProducts f' = Inr (JArr (map stored merged))"
    unfolding f' by (simp add: loadCachedProducts_def readStore_def)
  have after: "loadExisting f' = map stored ?kept"
    unfolding f' merged by (rule loadExisting_after [OF run])
  have "?sid (stored r) = ?sid r" for r
    by (simp add: idOf_stored option.map_comp comp_def stored_idem)
  then have "map ?sid (map stored ?kept) = map ?sid ?kept" by simp
  then have inv1: "distinct (map ?sid (loadExisting f'))"
    unfolding after using assms(2) by (simp only:)
  have inv2: "\<forall>r\<in>set (loadExisting f'). \<forall>k. 1000 \<le> k \<longrightarrow> idOf r \<noteq> ?num k"
  proof (intro ballI allI impI)
    fix r' k assume r': "r' \<in> set (loadExisting f')" and k: "1000 \<le> (k::int)"
    from r' obtain r where r: "r \<in> set ?kept" and "r' = stored r" unfolding after by auto
    then have "idOf r' = ?sid r" by (simp add: idOf_stored)
    moreover have "idOf r \<noteq> ?num k" using assms(3) r k by blast
    ultimately show "idOf r' \<noteq> ?num k" using sid_num by metis
  qed
  from run merged ids sorted range dm cached ds after inv1 inv2 show ?thesis by blast
qed

text \<open>
  A curated record with id 1 next to two scraped products.
\<close>

theorem merged_ids_distinct_witness:
  "\<exists>merged f'.
     runScraper sampleWorld (Content (Json (JArr [curatedA, staleRecord]))) = Inr (merged, f')
     \<and> map idOf (loadExisting (Content (Json (JArr [curatedA, staleRecord]))))
         = [Some (JNum (Finite 1))]
     \<and> distinct (map idOf merged)
     \<and> loadExisting f' = [curatedA]"
proof -
  let ?f = "Content (Json (JArr [curatedA, staleRecord]))"
  have "\<not> isl (runScraper sampleWorld ?f)" by code_simp
  then obtain merged f' where run: "runScraper sampleWorld ?f = Inr (merged, f')"
    by (cases "runScraper sampleWorld ?f") auto
  have kept: "loadExisting ?f = [curatedA]" by code_simp
  have id1: "idOf curatedA = Some (JNum (Finite 1))" by code_simp
  have st: "stored curatedA = curatedA" by code_simp
  have h1: "distinct (map (\<lambda>r. map_option stored (idOf r)) (loadExisting ?f))"
    unfolding kept by simp
  have h2: "\<forall>r\<in>set (loadExisting ?f). \<forall>k. 1000 \<le> k \<longrightarrow>
      idOf r \<noteq> Some (JNum (Finite (of_int k)))"
    unfolding kept using id1 by auto
  from merged_ids_distinct [OF run [unfolded runScraper_def] h1 h2]
  have "distinct (map idOf merged)" "loadExisting f' = map stored (loadExisting ?f)" by blast+
  then show ?thesis using run kept id1 st by simp
qed

text \<open>
  A curated record that carries the id 1000 meets the first scraped product: the ids of
  the merged catalog are 1, 1000, 1000, 1001. And two curated records with the ids
  \<open>-Infinity\<close> and \<open>null\<close> differ in the first run and carry the same id,
  \<open>null\<close>, in the second.
\<close>

theorem merged_ids_distinct_counterexample:
  "isManual curatedB
   \<and> map_sum id (map idOf \<circ> fst)
     (runScraper sampleWorld (Content (Json (JArr [curatedA, staleRecord, curatedB]))))
   = Inr [Some (JNum (Finite 1)), Some (JNum (Finite 1000)),
          Some (JNum (Finite 1000)), Some (JNum (Finite 1001))]
   \<and> map_sum id (map idOf \<circ> fst)
     (runScraper quietWorld (Content (Json (JArr [curatedNegInf, curatedNull]))))
   = Inr [Some (JNum NegInf), Some JNull]
   \<and> map_sum id (map idOf \<circ> fst)
     (runScraper quietWorld
        (snd (projr (runScraper quietWorld (Content (Json (JArr [curatedNegInf, curatedNull])))))))
   = Inr [Some JNull, Some JNull]"
  by code_simp

text \<open>
  C6, as the code has it. Let the store hold manual records \<open>M\<close> only, and let neither
  \<open>M\<close> nor the output of the second run hold a number that is not finite. After two
  runs the second output is \<open>M\<close> followed by the second run's scraped records, and the
  file holds exactly that list: the records of the first run are gone, and nothing is
  doubled. With the same browser answers both runs scrape the same list.
\<close>

theorem reconcile_twice:
  assumes "\<forall>r\<in>set M. isManual r \<and> stored r = r"
    and "runScraperWith cfgs w1 (Content (Json (JArr M))) = Inr (m1, f1)"
    and "runScraperWith cfgs w2 f1 = Inr (m2, f2)"
    and "\<forall>p\<in>set m2. stored p = p"
  shows "\<exists>S1 n1 S2 n2.
           runLoop w1 cfgs ([], 1000) = Inr (S1, n1)
           \<and> runLoop w2 cfgs ([], 1000) = Inr (S2, n2)
           \<and> m1 = M @ S1
           \<and> m2 = M @ S2
           \<and> f2 = Content (Json (JArr (M @ S2)))
           \<and> loadCachedProducts f2 = Inr (JArr (M @ S2))"
proof -
  have nonull: "JNull \<notin> set M" using assms(1) isManual_not_null by blast
  have keptM: "loadExisting (Content (Json (JArr M))) = M"
    using assms(1) by (simp add: loadExisting_array [OF nonull])
  have storedM: "map stored M = M" using assms(1) by (simp add: map_idI)
  from assms(2) obtain S1 n1 where run1: "runLoop w1 cfgs ([], 1000) = Inr (S1, n1)"
    and m1: "m1 = M @ S1" and f1: "f1 = Content (Json (JArr (map stored m1)))"
    unfolding runScraperWith_Inr keptM by blast
  have kept1: "loadExisting f1 = M"
    using loadExisting_after [OF run1, of "Content (Json (JArr M))"] keptM m1 f1 storedM
    by simp
  from assms(3) obtain S2 n2 where run2: "runLoop w2 cfgs ([], 1000) = Inr (S2, n2)"
    and m2: "m2 = M @ S2" and f2: "f2 = Content (Json (JArr (map stored m2)))"
    unfolding runScraperWith_Inr kept1 by blast
  have "map stored m2 = m2" using assms(4) by (simp add: map_idI)
  with f2 m2 have f2': "f2 = Content (Json (JArr (M @ S2)))" by simp
  then have "loadCachedProducts f2 = Inr (JArr (M @ S2))"
    by (simp add: loadCachedProducts_def readStore_def)
  with run1 run2 m1 m2 f2' show ?thesis by blast
qed

text \<open>
  Two runs against the same pages: the second leaves the file of the first.
\<close>

theorem reconcile_twice_witness:
  "list_all (\<lambda>r. isManual r \<and> stored r = r) [curatedA, curatedB]
   \<and> \<not> isl (runScraper sampleWorld (Content (Json (JArr [curatedA, curatedB]))))
   \<and> \<not> isl (runScraper sampleWorld
              (snd (projr (runScraper sampleWorld (Content (Json (JArr [curatedA, curatedB])))))))
   \<and> take 2 (fst (projr (runScraper sampleWorld
              (snd (projr (runScraper sampleWorld (Content (Json (JArr [curatedA, curatedB]))))))))) 
       = [curatedA, curatedB]
   \<and> length (fst (projr (runScraper sampleWorld
              (snd (projr (runScraper sampleWorld (Content (Json (JArr [curatedA, curatedB]))))))))) 
       = 4
   \<and> snd (projr (runScraper sampleWorld
              (snd (projr (runScraper sampleWorld (Content (Json (JArr [curatedA, curatedB]))))))))
       = snd (projr (runScraper sampleWorld (Content (Json (JArr [curatedA, curatedB])))))"
proof -
  let ?M = "[curatedA, curatedB]"
  let ?r1 = "runScraper sampleWorld (Content (Json (JArr ?M)))"
  let ?r2 = "runScraper sampleWorld (snd (projr ?r1))"
  have man: "list_all (\<lambda>r. isManual r \<and> stored r = r) ?M" by code_simp
  then have h: "\<forall>r\<in>set ?M. isManual r \<and> stored r = r" unfolding list_all_iff .
  have ok1: "\<not> isl ?r1" by code_simp
  have ok2: "\<not> isl ?r2" by code_simp
  have fin: "list_all (\<lambda>p. stored p = p) (fst (projr ?r2))" by code_simp
  have len: "length (fst (projr ?r2)) = 4" by code_simp
  have same: "snd (projr ?r2) = snd (projr ?r1)" by code_simp
  from ok1 have run1: "?r1 = Inr (fst (projr ?r1), snd (projr ?r1))"
    by (cases ?r1) auto
  from ok2 have run2: "?r2 = Inr (fst (projr ?r2), snd (projr ?r2))"
    by (cases ?r2) auto
  from fin have h4: "\<forall>p\<in>set (fst (projr ?r2)). stored p = p" unfolding list_all_iff .
  from reconcile_twice [OF h run1 [unfolded runScraper_def] run2 [unfolded runScraper_def] 
      h4 [unfolded runScraper_def]]
  obtain S2 where "fst (projr ?r2) = ?M @ S2" unfolding runScraper_def by blast
  then have "take 2 (fst (projr ?r2)) = ?M" by simp
  with man ok1 ok2 len same show ?thesis by simp
qed

text \<open>
  A scraped record whose price text is 310 digits long has the price \<open>Infinity\<close>,
  which the file holds as \<open>null\<close>.
\<close>

lemma long_price_record:
  "getProp (mkProduct w c u k longPriceItem) ''price'' = Some (JNum PosInf)
   \<and> getProp (stored (mkProduct w c u k longPriceItem)) ''price'' = Some JNull"
  by (simp add: getProp_stored) (simp add: mkProduct_def Let_def longPriceItem_def parsePrice_310_digits)

text \<open>
  A manual record whose price the file gives as \<open>1e999\<close> is read with the price
  \<open>Infinity\<close> and written back with the price \<open>null\<close>: after the second run the
  file does not hold the manual records it was read with. The same happens to a scraped
  record with a price text of 310 digits.
\<close>

theorem reconcile_twice_counterexample:
  "list_all isManual [curatedInf]
   \<and> getProp curatedInf ''price'' = Some (JNum PosInf)
   \<and> getProp (stored curatedInf) ''price'' = Some JNull
   \<and> runScraper quietWorld (Content (Json (JArr [curatedInf])))
       = Inr ([curatedInf], Content (Json (JArr [stored curatedInf])))
   \<and> runScraper quietWorld (Content (Json (JArr [stored curatedInf])))
       = Inr ([stored curatedInf], Content (Json (JArr [stored curatedInf])))
   \<and> Content (Json (JArr [stored curatedInf])) \<noteq> Content (Json (JArr ([curatedInf] @ [])))
   \<and> getProp (mkProduct quietWorld (hd SCRAPER_CONFIGS)
              ''https://www.ic-berlin.de/en/eyewear/sunglasses/'' 1000 longPriceItem) ''price''
       = Some (JNum PosInf)
   \<and> getProp (stored (mkProduct quietWorld (hd SCRAPER_CONFIGS)
              ''https://www.ic-berlin.de/en/eyewear/sunglasses/'' 1000 longPriceItem)) ''price''
       = Some JNull"
proof -
  have "list_all isManual [curatedInf]
   \<and> getProp curatedInf ''price'' = Some (JNum PosInf)
   \<and> getProp (stored curatedInf) ''price'' = Some JNull
   \<and> runScraper quietWorld (Content (Json (JArr [curatedInf])))
       = Inr ([curatedInf], Content (Json (JArr [stored curatedInf])))
   \<and> runScraper quietWorld (Content (Json (JArr [stored curatedInf])))
       = Inr ([stored curatedInf], Content (Json (JArr [stored curatedInf])))
   \<and> Content (Json (JArr [stored curatedInf])) \<noteq> Content (Json (JArr ([curatedInf] @ [])))"
    by code_simp
  with long_price_record [of quietWorld "hd SCRAPER_CONFIGS"
      "''https://www.ic-berlin.de/en/eyewear/sunglasses/''" 1000] show ?thesis by simp
qed

section \<open>Disabled configurations\<close>

text \<open>
  C7. A configuration with \<open>enabled = false\<close> hands the pair of scraped records and
  identifier counter on to the next configuration as it got it: the run, its output and
  the ids it assigns are those of the run without that configuration, and not even the
  gap of 10 is used up.
\<close>

theorem disabled_config_skipped:
  assumes "\<not> enabled c"
  shows "runLoop w (c # rest) (allScraped, idCounter) = runLoop w rest (allScraped, idCounter)
         \<and> runLoop w (cs1 @ c # cs2) st0 = runLoop w (cs1 @ cs2) st0
         \<and> runScraperWith (cs1 @ c # cs2) w st = runScraperWith (cs1 @ cs2) w st"
proof (intro conjI)
  show "runLoop w (c # rest) (allScraped, idCounter) = runLoop w rest (allScraped, idCounter)"
    using assms by simp
  show loop: "runLoop w (cs1 @ c # cs2) st0 = runLoop w (cs1 @ cs2) st0" for st0
    using assms by (rule runLoop_disabled)
  show "runScraperWith (cs1 @ c # cs2) w st = runScraperWith (cs1 @ cs2) w st"
    by (simp add: runScraperWith_def loop)
qed

text \<open>
  A paused configuration between the first and the second brand changes nothing; the
  same configuration switched on does.
\<close>

theorem disabled_config_skipped_witness:
  "\<not> enabled disabledConfig
   \<and> runScraperWith (take 1 SCRAPER_CONFIGS @ disabledConfig # drop 1 SCRAPER_CONFIGS)
        sampleWorld NoFile
     = runScraper sampleWorld NoFile
   \<and> runScraperWith
        (take 1 SCRAPER_CONFIGS @ disabledConfig\<lparr>enabled := True\<rparr> # drop 1 SCRAPER_CONFIGS)
        sampleWorld NoFile
     \<noteq> runScraper sampleWorld NoFile"
proof -
  have off: "\<not> enabled disabledConfig" by code_simp
  have "take 1 SCRAPER_CONFIGS @ drop 1 SCRAPER_CONFIGS = SCRAPER_CONFIGS" by simp
  with disabled_config_skipped [OF off, of sampleWorld "[]" "[]" 0
      "take 1 SCRAPER_CONFIGS" "drop 1 SCRAPER_CONFIGS" "([], 0)" NoFile]
  have same: "runScraperWith (take 1 SCRAPER_CONFIGS @ disabledConfig # drop 1 SCRAPER_CONFIGS)
        sampleWorld NoFile = runScraper sampleWorld NoFile"
    by (simp add: runScraper_def)
  have differs: "runScraperWith
        (take 1 SCRAPER_CONFIGS @ disabledConfig\<lparr>enabled := True\<rparr> # drop 1 SCRAPER_CONFIGS)
        sampleWorld NoFile
     \<noteq> runScraper sampleWorld NoFile"
    by code_simp
  from off same differs show ?thesis by simp
qed

section \<open>Page failures\<close>

text \<open>
  C8, as the code has it. Let the navigation, the rendering or the extraction of a
  listing page throw. The page yields no record and leaves \<open>products\<close> and
  \<open>idCounter\<close> as they were; if the page opens and closes, it is closed and the loop
  goes on with the pages after it from that state. If the pages of the enabled
  configurations all open and close, every one of them is opened and closed in order,
  and the run scrapes exactly what it is to scrape: every item with a name of every page
  that gave items, of every enabled configuration, none of them from the failing page;
  with a browser that launches and closes and a file that can be written, the run
  returns these records after the kept ones.
\<close>

theorem page_failure_contained:
  assumes "pageFails w url"
  shows "namedItems w url = []
         \<and> tryPage w c url st = st
         \<and> (newPageOk w url \<and> pageCloseOk w url \<longrightarrow>
              scrapeUrls w c (url # rest) (st, trace)
                = scrapeUrls w c rest (st, trace @ [NewPage url, ClosePage url]))
         \<and> (\<forall>(k, d, u, item)\<in>set (crawlItems w cfgs 1000). u \<noteq> url)
         \<and> (\<forall>d\<in>set cfgs. enabled d \<longrightarrow>
               (\<forall>u\<in>set (urls d). \<forall>item\<in>set (namedItems w u).
                  \<exists>k. (k, d, u, item) \<in> set (crawlItems w cfgs 1000)))
         \<and> ((\<forall>d\<in>set cfgs. enabled d \<longrightarrow>
                 (\<forall>u\<in>set (urls d). newPageOk w u \<and> pageCloseOk w u)) \<longrightarrow>
              (\<forall>d\<in>set cfgs. enabled d \<longrightarrow>
                 (\<exists>st'. scrapeUrls w d (urls d) (st, trace)
                          = Inr (st', trace @ pageEvents (urls d))))
              \<and> (\<exists>n'. runLoop w cfgs ([], 1000)
                         = Inr (map (\<lambda>(k, d, u, item). mkProduct w d u k item)
                                  (crawlItems w cfgs 1000), n'))
              \<and> (launchOk w \<and> browserCloseOk w \<and> writeOk w \<longrightarrow>
                    runScraperWith cfgs w f
                      = Inr (loadExisting f
                               @ map (\<lambda>(k, d, u, item). mkProduct w d u k item)
                                   (crawlItems w cfgs 1000),
                             Content (JSON_stringify
                               (JArr (loadExisting f
                                        @ map (\<lambda>(k, d, u, item). mkProduct w d u k item)
                                            (crawlItems w cfgs 1000)))))))"
proof (intro conjI impI)
  show none: "namedItems w url = []"
    using assms by (cases "pageOutcome w url") (simp_all add: namedItems_def pageFails_def)
  show same: "tryPage w c url st = st"
    using assms by (rule tryPage_fails)
  show "scrapeUrls w c (url # rest) (st, trace)
          = scrapeUrls w c rest (st, trace @ [NewPage url, ClosePage url])"
    if "newPageOk w url \<and> pageCloseOk w url"
    using that same by simp
  show "\<forall>(k, d, u, item)\<in>set (crawlItems w cfgs 1000). u \<noteq> url"
  proof (clarify)
    fix k d item
    assume "(k, d, url, item) \<in> set (crawlItems w cfgs 1000)"
    from crawlItems_sound [OF this] none show False by simp
  qed
  show "\<forall>d\<in>set cfgs. enabled d \<longrightarrow>
               (\<forall>u\<in>set (urls d). \<forall>item\<in>set (namedItems w u).
                  \<exists>k. (k, d, u, item) \<in> set (crawlItems w cfgs 1000))"
    using crawlItems_complete by blast
next
  assume ok: "\<forall>d\<in>set cfgs. enabled d \<longrightarrow>
                 (\<forall>u\<in>set (urls d). newPageOk w u \<and> pageCloseOk w u)"
  show "\<forall>d\<in>set cfgs. enabled d \<longrightarrow>
                 (\<exists>st'. scrapeUrls w d (urls d) (st, trace)
                          = Inr (st', trace @ pageEvents (urls d)))"
  proof (intro ballI impI)
    fix d assume "d \<in> set cfgs" "enabled d"
    with ok have okd: "\<forall>u\<in>set (urls d). newPageOk w u \<and> pageCloseOk w u" by blast
    obtain ps n where st: "st = (ps, n)" by (cases st)
    show "\<exists>st'. scrapeUrls w d (urls d) (st, trace) = Inr (st', trace @ pageEvents (urls d))"
      unfolding st scrapeUrls_closed [OF okd] by blast
  qed
  from runLoop_closed [OF ok, of 1000] obtain n' where
    loop: "runLoop w cfgs ([], 1000)
             = Inr (map (\<lambda>(k, d, u, item). mkProduct w d u k item) (crawlItems w cfgs 1000), n')"
    by blast
  then show "\<exists>n'. runLoop w cfgs ([], 1000)
                         = Inr (map (\<lambda>(k, d, u, item). mkProduct w d u k item)
                                  (crawlItems w cfgs 1000), n')" by blast
  show "runScraperWith cfgs w f
          = Inr (loadExisting f
                   @ map (\<lambda>(k, d, u, item). mkProduct w d u k item) (crawlItems w cfgs 1000),
                 Content (JSON_stringify
                   (JArr (loadExisting f
                            @ map (\<lambda>(k, d, u, item). mkProduct w d u k item)
                                (crawlItems w cfgs 1000)))))"
    if "launchOk w \<and> browserCloseOk w \<and> writeOk w"
    using that loop by (simp add: runScraperWith_def Let_def)
qed

text \<open>
  The first listing page of ic! berlin times out; the second still gives its two
  products, and the run returns them.
\<close>

theorem page_failure_contained_witness:
  "pageFails sampleWorld ''https://www.ic-berlin.de/en/eyewear/spectacle-frames/''
   \<and> scrapeUrls sampleWorld (hd SCRAPER_CONFIGS) (urls (hd SCRAPER_CONFIGS)) (([], 1000), [])
       = scrapeUrls sampleWorld (hd SCRAPER_CONFIGS)
           [''https://www.ic-berlin.de/en/eyewear/sunglasses/'']
           (([], 1000),
            [NewPage ''https://www.ic-berlin.de/en/eyewear/spectacle-frames/'',
             ClosePage ''https://www.ic-berlin.de/en/eyewear/spectacle-frames/''])
   \<and> map (\<lambda>(k, d, u, item). (k, brand d, u, rawName item)) (crawlItems sampleWorld SCRAPER_CONFIGS 1000)
       = [(1000, ''ic! berlin'', ''https://www.ic-berlin.de/en/eyewear/sunglasses/'', ''Classic Aviator''),
          (1001, ''ic! berlin'', ''https://www.ic-berlin.de/en/eyewear/sunglasses/'', ''Round Reader'')]
   \<and> runScraper sampleWorld NoFile
       = Inr (map (\<lambda>(k, d, u, item). mkProduct sampleWorld d u k item)
                (crawlItems sampleWorld SCRAPER_CONFIGS 1000),
              Content (JSON_stringify
                (JArr (map (\<lambda>(k, d, u, item). mkProduct sampleWorld d u k item)
                         (crawlItems sampleWorld SCRAPER_CONFIGS 1000)))))"
proof -
  let ?u = "''https://www.ic-berlin.de/en/eyewear/spectacle-frames/''"
  let ?c = "hd SCRAPER_CONFIGS"
  have f: "pageFails sampleWorld ?u" by code_simp
  have o: "newPageOk sampleWorld u" and cl: "pageCloseOk sampleWorld u" for u
    by (simp_all add: sampleWorld_def)
  have ok: "\<forall>d\<in>set SCRAPER_CONFIGS. enabled d \<longrightarrow>
            (\<forall>u\<in>set (urls d). newPageOk sampleWorld u \<and> pageCloseOk sampleWorld u)"
    using o cl by simp
  have run: "launchOk sampleWorld \<and> browserCloseOk sampleWorld \<and> writeOk sampleWorld"
    by (simp add: sampleWorld_def)
  have us: "urls ?c = [?u, ''https://www.ic-berlin.de/en/eyewear/sunglasses/'']"
    by code_simp
  have none: "loadExisting NoFile = []" by (simp add: loadExisting_def)
  have plan: "map (\<lambda>(k, d, u, item). (k, brand d, u, rawName item))
                (crawlItems sampleWorld SCRAPER_CONFIGS 1000)
       = [(1000, ''ic! berlin'', ''https://www.ic-berlin.de/en/eyewear/sunglasses/'', ''Classic Aviator''),
          (1001, ''ic! berlin'', ''https://www.ic-berlin.de/en/eyewear/sunglasses/'', ''Round Reader'')]"
    by code_simp
  note inst = page_failure_contained [OF f, of ?c "([], 1000)"
      "[''https://www.ic-berlin.de/en/eyewear/sunglasses/'']" "[]" SCRAPER_CONFIGS NoFile]
  from inst o cl have step: "scrapeUrls sampleWorld ?c (urls ?c) (([], 1000), [])
       = scrapeUrls sampleWorld ?c [''https://www.ic-berlin.de/en/eyewear/sunglasses/'']
           (([], 1000), [NewPage ?u, ClosePage ?u])"
    unfolding us by simp
  from inst ok run have whole: "runScraper sampleWorld NoFile
       = Inr (map (\<lambda>(k, d, u, item). mkProduct sampleWorld d u k item)
                (crawlItems sampleWorld SCRAPER_CONFIGS 1000),
              Content (JSON_stringify
                (JArr (map (\<lambda>(k, d, u, item). mkProduct sampleWorld d u k item)
                         (crawlItems sampleWorld SCRAPER_CONFIGS 1000)))))"
    unfolding runScraper_def none by simp
  from f step plan whole show ?thesis by simp
qed

text \<open>
  When closing the page that timed out throws as well, the exception leaves the
  \<open>finally\<close> block: \<open>scrapeConfig\<close> and the run are aborted, and the two products
  of the next page are never scraped.
\<close>

theorem page_failure_contained_counterexample:
  "pageFails closeFailsWorld ''https://www.ic-berlin.de/en/eyewear/spectacle-frames/''
   \<and> scrapeConfig closeFailsWorld (hd SCRAPER_CONFIGS) 1000
       = Inl (PageCloseError ''https://www.ic-berlin.de/en/eyewear/spectacle-frames/'')
   \<and> runScraper closeFailsWorld NoFile
       = Inl (PageCloseError ''https://www.ic-berlin.de/en/eyewear/spectacle-frames/'')
   \<and> map_sum id (length \<circ> fst) (runScraper sampleWorld NoFile) = Inr 2"
  by code_simp

section \<open>Reading the cache\<close>

text \<open>
  C9. \<open>loadCachedProducts\<close> never raises: whatever the file is, it returns a value.
  It returns the parsed catalog when the file exists, can be read and parses, and the
  empty list when the file is absent, when reading it throws and when parsing it
  throws.
\<close>

theorem loadCachedProducts_never_raises:
  "(\<exists>v. loadCachedProducts f = Inr v)
   \<and> (existsSync f \<and> readFileSync f = Inr t \<and> JSON_parse t = Inr v \<longrightarrow>
        loadCachedProducts f = Inr v)
   \<and> (\<not> existsSync f \<or> (\<exists>e. readFileSync f = Inl e)
        \<or> (\<exists>t e. readFileSync f = Inr t \<and> JSON_parse t = Inl e) \<longrightarrow>
        loadCachedProducts f = Inr (JArr []))"
proof (intro conjI impI)
  show "\<exists>v. loadCachedProducts f = Inr v"
    by (cases "readStore f") (simp_all add: loadCachedProducts_def)
  show "loadCachedProducts f = Inr v"
    if "existsSync f \<and> readFileSync f = Inr t \<and> JSON_parse t = Inr v"
    using that by (simp add: loadCachedProducts_def readStore_def)
  show "loadCachedProducts f = Inr (JArr [])"
    if "\<not> existsSync f \<or> (\<exists>e. readFileSync f = Inl e)
        \<or> (\<exists>t e. readFileSync f = Inr t \<and> JSON_parse t = Inl e)"
    using that by (auto simp: loadCachedProducts_def readStore_def)
qed

text \<open>
  A file with one record, a file that is not JSON, an unreadable file and no file.
\<close>

theorem loadCachedProducts_never_raises_witness:
  "existsSync (Content (Json (JArr [curatedA])))
   \<and> readFileSync (Content (Json (JArr [curatedA]))) = Inr (Json (JArr [curatedA]))
   \<and> JSON_parse (Json (JArr [curatedA])) = Inr (JArr [curatedA])
   \<and> loadCachedProducts (Content (Json (JArr [curatedA]))) = Inr (JArr [curatedA])
   \<and> readFileSync (Content NotJson) = Inr NotJson
   \<and> JSON_parse NotJson = Inl SyntaxError
   \<and> loadCachedProducts (Content NotJson) = Inr (JArr [])
   \<and> readFileSync Unreadable = Inl IOError
   \<and> loadCachedProducts Unreadable = Inr (JArr [])
   \<and> \<not> existsSync NoFile
   \<and> loadCachedProducts NoFile = Inr (JArr [])"
proof -
  let ?f = "Content (Json (JArr [curatedA]))"
  have a: "existsSync ?f \<and> readFileSync ?f = Inr (Json (JArr [curatedA]))
      \<and> JSON_parse (Json (JArr [curatedA])) = Inr (JArr [curatedA])" by simp
  with loadCachedProducts_never_raises [of ?f "Json (JArr [curatedA])" "JArr [curatedA]"]
  have r1: "loadCachedProducts ?f = Inr (JArr [curatedA])" by blast
  have b: "readFileSync (Content NotJson) = Inr NotJson \<and> JSON_parse NotJson = Inl SyntaxError"
    by simp
  with loadCachedProducts_never_raises [of "Content NotJson"]
  have r2: "loadCachedProducts (Content NotJson) = Inr (JArr [])" by blast
  have c: "readFileSync Unreadable = Inl IOError" by simp
  with loadCachedProducts_never_raises [of Unreadable]
  have r3: "loadCachedProducts Unreadable = Inr (JArr [])" by blast
  have d: "\<not> existsSync NoFile" by simp
  with loadCachedProducts_never_raises [of NoFile]
  have r4: "loadCachedProducts NoFile = Inr (JArr [])" by blast
  from a r1 b r2 c r3 d r4 show ?thesis by simp
qed

section \<open>Product type\<close>

text \<open>
  C10. \<open>scrapeConfig\<close> computes the type of a product as
  \<open>detectType(rawName, '', url)\<close> with the URL of the listing page the item came from.
  That is Sunglasses exactly when the lower-cased name or the lower-cased listing URL
  contains one of sun, tinted, polarized, uv, and Optical otherwise: a product from a
  listing URL with such a word is Sunglasses whatever its name.
\<close>

theorem type_from_listing_url:
  "typeWords = [''sun'', ''tinted'', ''polarized'', ''uv'']
   \<and> detectType name [] url =
       (if (\<exists>k\<in>set typeWords. sublist k (toLowerCase name))
           \<or> (\<exists>k\<in>set typeWords. sublist k (toLowerCase url))
        then ''Sunglasses'' else ''Optical'')
   \<and> (scrapeConfig w c startId = Inr ps \<longrightarrow>
        map (\<lambda>p. (getProp p ''name'', getProp p ''type'')) ps
          = map (\<lambda>(u, item). (Some (JStr (rawName item)),
                                Some (JStr (detectType (rawName item) [] u))))
              (pageItems w (urls c)))"
proof (intro conjI impI)
  show "typeWords = [''sun'', ''tinted'', ''polarized'', ''uv'']" by (simp add: typeWords_def)
  show "detectType name [] url =
       (if (\<exists>k\<in>set typeWords. sublist k (toLowerCase name))
           \<or> (\<exists>k\<in>set typeWords. sublist k (toLowerCase url))
        then ''Sunglasses'' else ''Optical'')"
    unfolding detectType_listing testAny_sublist ..
  assume "scrapeConfig w c startId = Inr ps"
  from scrapeConfig_Inr [OF this]
  have ps: "ps = map (\<lambda>(k, u, item). mkProduct w c u k item)
                   (number startId (pageItems w (urls c)))" by simp
  have fields: "(getProp (mkProduct w c u k item) ''name'', getProp (mkProduct w c u k item) ''type'')
      = (Some (JStr (rawName item)), Some (JStr (detectType (rawName item) [] u)))" for u k item
    by (simp add: mkProduct_def Let_def)
  have "map (\<lambda>p. (getProp p ''name'', getProp p ''type'')) ps
      = map (\<lambda>(u, item). (Some (JStr (rawName item)),
                            Some (JStr (detectType (rawName item) [] u))))
          (map snd (number startId (pageItems w (urls c))))"
    unfolding ps by (simp add: fields split_def del: map_snd_number)
  then show "map (\<lambda>p. (getProp p ''name'', getProp p ''type'')) ps
          = map (\<lambda>(u, item). (Some (JStr (rawName item)),
                                Some (JStr (detectType (rawName item) [] u))))
              (pageItems w (urls c))"
    by simp
qed

text \<open>
  \<open>Classic Aviator\<close> has none of the words in its name and is Sunglasses by its
  listing URL.
\<close>

theorem type_from_listing_url_witness:
  "\<exists>ps. scrapeConfig sampleWorld (hd SCRAPER_CONFIGS) 1000 = Inr ps
     \<and> map (\<lambda>p. (getProp p ''name'', getProp p ''type'')) ps
         = [(Some (JStr ''Classic Aviator''), Some (JStr ''Sunglasses'')),
            (Some (JStr ''Round Reader''), Some (JStr ''Sunglasses''))]
     \<and> \<not> testAny typeWords (toLowerCase ''Classic Aviator'')
     \<and> testAny typeWords (toLowerCase ''https://www.ic-berlin.de/en/eyewear/sunglasses/'')"
proof -
  let ?c = "hd SCRAPER_CONFIGS"
  have "\<not> isl (scrapeConfig sampleWorld ?c 1000)" by code_simp
  then obtain ps where run: "scrapeConfig sampleWorld ?c 1000 = Inr ps"
    by (cases "scrapeConfig sampleWorld ?c 1000") auto
  have items: "map (\<lambda>(u, item). (Some (JStr (rawName item)),
                                Some (JStr (detectType (rawName item) [] u))))
              (pageItems sampleWorld (urls ?c))
         = [(Some (JStr ''Classic Aviator''), Some (JStr ''Sunglasses'')),
            (Some (JStr ''Round Reader''), Some (JStr ''Sunglasses''))]"
    by code_simp
  have no: "\<not> testAny typeWords (toLowerCase ''Classic Aviator'')" by code_simp
  have yes: "testAny typeWords (toLowerCase ''https://www.ic-berlin.de/en/eyewear/sunglasses/'')"
    by code_simp
  from type_from_listing_url [of "[]" "[]" sampleWorld ?c 1000 ps] run items
  have "map (\<lambda>p. (getProp p ''name'', getProp p ''type'')) ps
         = [(Some (JStr ''Classic Aviator''), Some (JStr ''Sunglasses'')),
            (Some (JStr ''Round Reader''), Some (JStr ''Sunglasses''))]"
    by simp
  with run no yes show ?thesis by simp
qed

section \<open>Image URLs\<close>

text \<open>
  C5 fails on the code. The image URL of a product is the raw one, with \<open>https:\<close> put
  in front only when it starts with \<open>//\<close>: the raw URL \<open>/media/aviator.jpg\<close> stays
  as it is, a relative URL in the record, while \<open>//cdn.example.com/round.jpg\<close> is
  completed.
\<close>

theorem imageUrl_relative_kept:
  "getProp (mkProduct w c url k item) ''imageUrl''
     = Some (JStr (if prefix ''//'' (imageUrl item) then ''https:'' @ imageUrl item
                   else imageUrl item))
   \<and> map_sum id (map (\<lambda>p. getProp p ''imageUrl''))
        (scrapeConfig sampleWorld (hd SCRAPER_CONFIGS) 1000)
     = Inr [Some (JStr ''/media/aviator.jpg''), Some (JStr ''https://cdn.example.com/round.jpg'')]"
proof
  show "getProp (mkProduct w c url k item) ''imageUrl''
     = Some (JStr (if prefix ''//'' (imageUrl item) then ''https:'' @ imageUrl item
                   else imageUrl item))"
    by (auto simp: mkProduct_def Let_def startsWith_prefix)
  show "map_sum id (map (\<lambda>p. getProp p ''imageUrl''))
        (scrapeConfig sampleWorld (hd SCRAPER_CONFIGS) 1000)
     = Inr [Some (JStr ''/media/aviator.jpg''), Some (JStr ''https://cdn.example.com/round.jpg'')]"
    by code_simp
qed

end
